theory Spec2Isabelle
  imports Complex_Main "HOL-Library.Sublist"
begin

section \<open>SDKMonitorService: request bookkeeping\<close>

text \<open>
  Clock readings (\<open>Date.now()\<close>) are passed in as integers (milliseconds); identifiers
  produced by \<open>generateRequestId\<close> are passed in as strings. The \<open>requests\<close> field is
  the service's \<open>Map<string, RequestMetrics>\<close>.
\<close>

record SDKMetrics =
  errorsReported :: int
  errorsDropped :: int
  requestsSuccessful :: int
  requestsFailed :: int
  averageResponseTime :: int
  queueSize :: int
  bytesTransmitted :: int

record RequestMetrics =
  rm_id :: string
  rm_startTime :: int
  rm_endTime :: "int option"
  rm_success :: "bool option"
  rm_error :: "string option"
  rm_payloadSize :: "int option"

record SDKMonitor =
  metrics :: SDKMetrics
  requests :: "string \<rightharpoonup> RequestMetrics"
  responseTimes :: "int list"
  mon_startTime :: int

definition MAX_RESPONSE_TIMES :: nat where
  "MAX_RESPONSE_TIMES = 100"

definition Math_round :: "real \<Rightarrow> int" where
  "Math_round x = \<lfloor>x + 1 / 2\<rfloor>"

definition updateAverageResponseTime :: "SDKMonitor \<Rightarrow> SDKMonitor" where
  "updateAverageResponseTime s =
     (if length (responseTimes s) = 0
      then s\<lparr>metrics := (metrics s)\<lparr>averageResponseTime := 0\<rparr>\<rparr>
      else s\<lparr>metrics := (metrics s)\<lparr>averageResponseTime :=
              Math_round (real_of_int (sum_list (responseTimes s))
                          / real (length (responseTimes s)))\<rparr>\<rparr>)"

definition pushResponseTime :: "int \<Rightarrow> int list \<Rightarrow> int list" where
  "pushResponseTime responseTime rts =
     (let pushed = rts @ [responseTime]
      in if length pushed > MAX_RESPONSE_TIMES then tl pushed else pushed)"

definition recordRequestStart :: "string \<Rightarrow> int \<Rightarrow> SDKMonitor \<Rightarrow> string \<times> SDKMonitor" where
  "recordRequestStart newId now s =
     (newId, s\<lparr>requests := (requests s)(newId \<mapsto>
        \<lparr>rm_id = newId, rm_startTime = now, rm_endTime = None, rm_success = None,
         rm_error = None, rm_payloadSize = None\<rparr>)\<rparr>)"

definition recordRequestSuccess :: "int \<Rightarrow> string \<Rightarrow> int \<Rightarrow> SDKMonitor \<Rightarrow> SDKMonitor" where
  "recordRequestSuccess now requestId payloadSize s =
     (case requests s requestId of
        None \<Rightarrow> s
      | Some request \<Rightarrow>
          let request' = request\<lparr>rm_endTime := Some now, rm_success := Some True,
                                 rm_payloadSize := Some payloadSize\<rparr>;
              s1 = s\<lparr>requests := (requests s)(requestId \<mapsto> request')\<rparr>;
              s2 = s1\<lparr>metrics := (metrics s1)\<lparr>requestsSuccessful :=
                        requestsSuccessful (metrics s1) + 1\<rparr>\<rparr>;
              responseTime = now - rm_startTime request';
              s3 = s2\<lparr>responseTimes := pushResponseTime responseTime (responseTimes s2)\<rparr>;
              s4 = updateAverageResponseTime s3
          in s4\<lparr>requests := (requests s4)(requestId := None)\<rparr>)"

definition recordRequestFailure :: "int \<Rightarrow> string \<Rightarrow> string \<Rightarrow> SDKMonitor \<Rightarrow> SDKMonitor" where
  "recordRequestFailure now requestId err s =
     (case requests s requestId of
        None \<Rightarrow> s
      | Some request \<Rightarrow>
          let request' = request\<lparr>rm_endTime := Some now, rm_success := Some False,
                                 rm_error := Some err\<rparr>;
              s1 = s\<lparr>requests := (requests s)(requestId \<mapsto> request')\<rparr>;
              s2 = s1\<lparr>metrics := (metrics s1)\<lparr>requestsFailed :=
                        requestsFailed (metrics s1) + 1\<rparr>\<rparr>;
              responseTime = now - rm_startTime request';
              s3 = s2\<lparr>responseTimes := pushResponseTime responseTime (responseTimes s2)\<rparr>;
              s4 = updateAverageResponseTime s3
          in s4\<lparr>requests := (requests s4)(requestId := None)\<rparr>)"

definition monitorInit :: "int \<Rightarrow> SDKMonitor" where
  "monitorInit now =
     \<lparr>metrics = \<lparr>errorsReported = 0, errorsDropped = 0, requestsSuccessful = 0,
                 requestsFailed = 0, averageResponseTime = 0, queueSize = 0,
                 bytesTransmitted = 0\<rparr>,
      requests = Map.empty, responseTimes = [], mon_startTime = now\<rparr>"

definition recordErrorReported :: "int \<Rightarrow> SDKMonitor \<Rightarrow> SDKMonitor" where
  "recordErrorReported payloadSize s =
     s\<lparr>metrics := (metrics s)\<lparr>errorsReported := errorsReported (metrics s) + 1,
                                bytesTransmitted := bytesTransmitted (metrics s) + payloadSize\<rparr>\<rparr>"

definition recordErrorDropped :: "SDKMonitor \<Rightarrow> SDKMonitor" where
  "recordErrorDropped s =
     s\<lparr>metrics := (metrics s)\<lparr>errorsDropped := errorsDropped (metrics s) + 1\<rparr>\<rparr>"

definition recordQueueSize :: "int \<Rightarrow> SDKMonitor \<Rightarrow> SDKMonitor" where
  "recordQueueSize n s = s\<lparr>metrics := (metrics s)\<lparr>queueSize := n\<rparr>\<rparr>"

definition monitorReset :: "int \<Rightarrow> SDKMonitor \<Rightarrow> SDKMonitor" where
  "monitorReset clock s = monitorInit clock"

text \<open>
  The calls that change the monitor, with the clock reading and, for
  \<open>recordRequestStart\<close>, the identifier that \<open>generateRequestId\<close> produced.
\<close>

datatype mon_call =
    RequestStart string int
  | RequestSuccess int string int
  | RequestFailure int string string
  | ErrorReported int
  | ErrorDropped
  | QueueSize int
  | MonitorReset int

fun mon_step :: "mon_call \<Rightarrow> SDKMonitor \<Rightarrow> SDKMonitor" where
  "mon_step (RequestStart newId clock) s = snd (recordRequestStart newId clock s)"
| "mon_step (RequestSuccess clock requestId payloadSize) s =
     recordRequestSuccess clock requestId payloadSize s"
| "mon_step (RequestFailure clock requestId err) s = recordRequestFailure clock requestId err s"
| "mon_step (ErrorReported payloadSize) s = recordErrorReported payloadSize s"
| "mon_step ErrorDropped s = recordErrorDropped s"
| "mon_step (QueueSize n) s = recordQueueSize n s"
| "mon_step (MonitorReset clock) s = monitorReset clock s"

fun mon_run :: "mon_call list \<Rightarrow> SDKMonitor \<Rightarrow> SDKMonitor" where
  "mon_run [] s = s"
| "mon_run (c # cs) s = mon_run cs (mon_step c s)"

section \<open>CircuitBreakerService\<close>

text \<open>
  The fields \<open>lastFailureTime\<close> and \<open>nextRetryTime\<close> have type \<open>number | null\<close>;
  \<open>null\<close> is \<open>None\<close>. The source tests \<open>this.nextRetryTime && ...\<close>, which is false for
  \<open>null\<close> and for the number \<open>0\<close>; \<open>truthy\<close> writes that out. An operation is given
  by its outcome when invoked (\<open>Inl\<close> the message of the error it rejects with); the
  second component of the result of \<open>execute\<close> says whether it was invoked at all.
  \<open>execute\<close> reads the clock on entry (\<open>tcall\<close>) and, after the operation has failed,
  in \<open>onFailure\<close> (\<open>tfail\<close>) and in \<open>tripCircuit\<close> (\<open>ttrip\<close>).
\<close>

datatype CircuitState = CLOSED | OPEN | HALF_OPEN

record CircuitBreakerConfig =
  failureThreshold :: int
  timeout :: int
  resetTimeout :: int

record CircuitBreaker =
  cb_config :: CircuitBreakerConfig
  cb_state :: CircuitState
  failureCount :: int
  successCount :: int
  lastFailureTime :: "int option"
  nextRetryTime :: "int option"

datatype thrown = CircuitOpenError | OperationError string

definition circuitBreakerInit :: CircuitBreaker where
  "circuitBreakerInit =
     \<lparr>cb_config = \<lparr>failureThreshold = 5, timeout = 30000, resetTimeout = 60000\<rparr>,
      cb_state = CLOSED, failureCount = 0, successCount = 0,
      lastFailureTime = None, nextRetryTime = None\<rparr>"

definition truthy :: "int option \<Rightarrow> bool" where
  "truthy v = (case v of None \<Rightarrow> False | Some n \<Rightarrow> n \<noteq> 0)"

definition isCallAllowed :: "int \<Rightarrow> CircuitBreaker \<Rightarrow> bool \<times> CircuitBreaker" where
  "isCallAllowed now s =
     (if cb_state s = CLOSED then (True, s)
      else if cb_state s = OPEN then
        (if truthy (nextRetryTime s) \<and> now \<ge> the (nextRetryTime s)
         then (True, s\<lparr>cb_state := HALF_OPEN\<rparr>)
         else (False, s))
      else if cb_state s = HALF_OPEN then (True, s)
      else (False, s))"

definition reset :: "CircuitBreaker \<Rightarrow> CircuitBreaker" where
  "reset s = s\<lparr>cb_state := CLOSED, failureCount := 0, successCount := 0,
              lastFailureTime := None, nextRetryTime := None\<rparr>"

definition tripCircuit :: "int \<Rightarrow> CircuitBreaker \<Rightarrow> CircuitBreaker" where
  "tripCircuit now s =
     s\<lparr>cb_state := OPEN, nextRetryTime := Some (now + timeout (cb_config s))\<rparr>"

definition onSuccess :: "CircuitBreaker \<Rightarrow> CircuitBreaker" where
  "onSuccess s =
     (let s1 = s\<lparr>successCount := successCount s + 1\<rparr>
      in if cb_state s1 = HALF_OPEN then reset s1 else s1)"

definition onFailure :: "int \<Rightarrow> int \<Rightarrow> CircuitBreaker \<Rightarrow> CircuitBreaker" where
  "onFailure tfail ttrip s =
     (let s1 = s\<lparr>failureCount := failureCount s + 1, lastFailureTime := Some tfail\<rparr>
      in if cb_state s1 = HALF_OPEN then tripCircuit ttrip s1
         else if failureCount s1 \<ge> failureThreshold (cb_config s1) then tripCircuit ttrip s1
         else s1)"

definition execute ::
  "int \<Rightarrow> string + 'a \<Rightarrow> int \<Rightarrow> int \<Rightarrow> CircuitBreaker \<Rightarrow> (thrown + 'a) \<times> bool \<times> CircuitBreaker"
where
  "execute tcall operation tfail ttrip s =
     (case isCallAllowed tcall s of
        (False, s1) \<Rightarrow> (Inl CircuitOpenError, False, s1)
      | (True, s1) \<Rightarrow>
          (case operation of
             Inr result \<Rightarrow> (Inr result, True, onSuccess s1)
           | Inl err \<Rightarrow> (Inl (OperationError err), True, onFailure tfail ttrip s1)))"

text \<open>
  A run of \<open>execute\<close> calls whose operations all fail; each call comes with its three
  clock readings and the message its operation fails with.
\<close>

fun failedCalls :: "(int \<times> string \<times> int \<times> int) list \<Rightarrow> CircuitBreaker \<Rightarrow> CircuitBreaker" where
  "failedCalls [] s = s"
| "failedCalls ((tcall, err, tfail, ttrip) # cs) s =
     failedCalls cs (snd (snd (execute tcall (Inl err :: string + unit) tfail ttrip s)))"

section \<open>RateLimiterService\<close>

text \<open>
  \<open>errorFingerprints\<close> is the service's \<open>Map<string, number>\<close>. The optional parameter
  of \<open>recordRequest\<close> is an option; the source's test \<open>if (fingerprint)\<close> is false for
  \<open>undefined\<close> and for the empty string, and \<open>if (!lastReported)\<close> in \<open>canReportError\<close>
  is true for a missing entry and for the number \<open>0\<close>.
\<close>

record RateLimiterConfig =
  maxRequests :: int
  windowMs :: int
  duplicateErrorWindow :: int

record RequestLog =
  timestamp :: int
  fingerprint :: "string option"

record RateLimiter =
  rl_config :: RateLimiterConfig
  rl_requests :: "RequestLog list"
  errorFingerprints :: "string \<rightharpoonup> int"

definition rateLimiterInit :: RateLimiter where
  "rateLimiterInit =
     \<lparr>rl_config = \<lparr>maxRequests = 10, windowMs = 60000, duplicateErrorWindow = 5000\<rparr>,
      rl_requests = [], errorFingerprints = Map.empty\<rparr>"

definition cleanupOldRequests :: "int \<Rightarrow> RateLimiter \<Rightarrow> RateLimiter" where
  "cleanupOldRequests now s =
     (let cutoff = now - windowMs (rl_config s)
      in s\<lparr>rl_requests := filter (\<lambda>req. timestamp req > cutoff) (rl_requests s)\<rparr>)"

definition cleanupOldFingerprints :: "int \<Rightarrow> RateLimiter \<Rightarrow> RateLimiter" where
  "cleanupOldFingerprints now s =
     (let cutoff = now - duplicateErrorWindow (rl_config s)
      in s\<lparr>errorFingerprints := (\<lambda>fp.
            case errorFingerprints s fp of
              None \<Rightarrow> None
            | Some ts \<Rightarrow> if ts \<le> cutoff then None else Some ts)\<rparr>)"

definition canMakeRequest :: "int \<Rightarrow> RateLimiter \<Rightarrow> bool \<times> RateLimiter" where
  "canMakeRequest now s =
     (let s1 = cleanupOldRequests now s
      in (int (length (rl_requests s1)) < maxRequests (rl_config s1), s1))"

definition canReportError :: "int \<Rightarrow> string \<Rightarrow> RateLimiter \<Rightarrow> bool" where
  "canReportError now fp s =
     (case errorFingerprints s fp of
        None \<Rightarrow> True
      | Some lastReported \<Rightarrow>
          if lastReported = 0 then True
          else (now - lastReported) > duplicateErrorWindow (rl_config s))"

definition recordRequest :: "int \<Rightarrow> string option \<Rightarrow> RateLimiter \<Rightarrow> RateLimiter" where
  "recordRequest now fp s =
     (let s1 = s\<lparr>rl_requests := rl_requests s @ [\<lparr>timestamp = now, fingerprint = fp\<rparr>]\<rparr>
      in case fp of
           None \<Rightarrow> s1
         | Some f \<Rightarrow> if f \<noteq> [] then s1\<lparr>errorFingerprints := (errorFingerprints s1)(f \<mapsto> now)\<rparr>
                     else s1)"

definition cleanup :: "int \<Rightarrow> RateLimiter \<Rightarrow> RateLimiter" where
  "cleanup now s = cleanupOldFingerprints now (cleanupOldRequests now s)"

text \<open>Calls made on the service between two observations, each with its clock reading.\<close>

datatype rl_call = RecordRequest int "string option" | CanMakeRequest int | Cleanup int

fun rl_step :: "rl_call \<Rightarrow> RateLimiter \<Rightarrow> RateLimiter" where
  "rl_step (RecordRequest now fp) s = recordRequest now fp s"
| "rl_step (CanMakeRequest now) s = snd (canMakeRequest now s)"
| "rl_step (Cleanup now) s = cleanup now s"

fun rl_run :: "rl_call list \<Rightarrow> RateLimiter \<Rightarrow> RateLimiter" where
  "rl_run [] s = s"
| "rl_run (c # cs) s = rl_run cs (rl_step c s)"

fun records :: "string \<Rightarrow> rl_call \<Rightarrow> bool" where
  "records f (RecordRequest now fp) = (fp = Some f)"
| "records f _ = False"

section \<open>QuotaManagerService\<close>

text \<open>
  Every public method starts with \<open>checkAndResetQuotas\<close>, which reads \<open>Date.now()\<close> and,
  through \<open>getNextDayReset\<close> and \<open>getNextMonthReset\<close>, the local calendar. The three
  readings are the fields of \<open>QuotaClock\<close>. \<open>saveState\<close> only writes the state to
  \<open>localStorage\<close> and is left out: it does not change \<open>this.state\<close>.
\<close>

record QuotaConfig =
  dailyLimit :: int
  monthlyLimit :: int
  payloadSizeLimit :: int
  burstLimit :: int
  burstWindowMs :: int

record QuotaCounter =
  used :: int
  resetTime :: int

record QuotaState =
  daily :: QuotaCounter
  monthly :: QuotaCounter
  burst :: QuotaCounter

record QuotaManager =
  q_config :: QuotaConfig
  q_state :: QuotaState

record QuotaClock =
  clk_now :: int
  nextDayReset :: int
  nextMonthReset :: int

record SendDecision =
  allowed :: bool
  reason :: "string option"

definition quotaDefaultConfig :: QuotaConfig where
  "quotaDefaultConfig =
     \<lparr>dailyLimit = 1000, monthlyLimit = 10000, payloadSizeLimit = 1024 * 1024,
      burstLimit = 50, burstWindowMs = 60000\<rparr>"

definition createInitialState :: "QuotaClock \<Rightarrow> QuotaConfig \<Rightarrow> QuotaState" where
  "createInitialState clk cfg =
     \<lparr>daily = \<lparr>used = 0, resetTime = nextDayReset clk\<rparr>,
      monthly = \<lparr>used = 0, resetTime = nextMonthReset clk\<rparr>,
      burst = \<lparr>used = 0, resetTime = clk_now clk + burstWindowMs cfg\<rparr>\<rparr>"

definition checkAndResetQuotas :: "QuotaClock \<Rightarrow> QuotaManager \<Rightarrow> QuotaManager" where
  "checkAndResetQuotas clk s =
     (let st0 = q_state s;
          st1 = (if clk_now clk \<ge> resetTime (burst st0)
                 then st0\<lparr>burst := \<lparr>used = 0, resetTime = clk_now clk + burstWindowMs (q_config s)\<rparr>\<rparr>
                 else st0);
          st2 = (if clk_now clk \<ge> resetTime (daily st1)
                 then st1\<lparr>daily := \<lparr>used = 0, resetTime = nextDayReset clk\<rparr>\<rparr>
                 else st1);
          st3 = (if clk_now clk \<ge> resetTime (monthly st2)
                 then st2\<lparr>monthly := \<lparr>used = 0, resetTime = nextMonthReset clk\<rparr>\<rparr>
                 else st2)
      in s\<lparr>q_state := st3\<rparr>)"

definition canSendError :: "QuotaClock \<Rightarrow> int \<Rightarrow> QuotaManager \<Rightarrow> SendDecision \<times> QuotaManager" where
  "canSendError clk estimatedSize s =
     (let s1 = checkAndResetQuotas clk s
      in if used (burst (q_state s1)) \<ge> burstLimit (q_config s1)
         then (\<lparr>allowed = False, reason = Some ''Burst limit exceeded''\<rparr>, s1)
         else if used (daily (q_state s1)) \<ge> dailyLimit (q_config s1)
         then (\<lparr>allowed = False, reason = Some ''Daily limit exceeded''\<rparr>, s1)
         else if used (monthly (q_state s1)) \<ge> monthlyLimit (q_config s1)
         then (\<lparr>allowed = False, reason = Some ''Monthly limit exceeded''\<rparr>, s1)
         else if estimatedSize > payloadSizeLimit (q_config s1)
         then (\<lparr>allowed = False, reason = Some ''Payload size limit exceeded''\<rparr>, s1)
         else (\<lparr>allowed = True, reason = None\<rparr>, s1))"

definition recordErrorSent :: "QuotaClock \<Rightarrow> int \<Rightarrow> QuotaManager \<Rightarrow> QuotaManager" where
  "recordErrorSent clk payloadSize s =
     (let s1 = checkAndResetQuotas clk s;
          st = q_state s1;
          st1 = st\<lparr>daily := (daily st)\<lparr>used := used (daily st) + 1\<rparr>\<rparr>;
          st2 = st1\<lparr>monthly := (monthly st1)\<lparr>used := used (monthly st1) + 1\<rparr>\<rparr>;
          st3 = st2\<lparr>burst := (burst st2)\<lparr>used := used (burst st2) + 1\<rparr>\<rparr>
      in s1\<lparr>q_state := st3\<rparr>)"

text \<open>A run of \<open>recordErrorSent\<close> calls, each with its clock readings and payload size.\<close>

fun recordErrorsSent :: "(QuotaClock \<times> int) list \<Rightarrow> QuotaManager \<Rightarrow> QuotaManager" where
  "recordErrorsSent [] s = s"
| "recordErrorsSent ((clk, payloadSize) # cs) s = recordErrorsSent cs (recordErrorSent clk payloadSize s)"

section \<open>OfflineManagerService\<close>

text \<open>
  The report type is a parameter. \<open>sendReportFunction\<close> is represented by a flag saying
  whether one is set and, for a pass of \<open>processQueue\<close>, by the outcome of each of its
  calls: \<open>send k r\<close> is true when the \<open>k\<close>-th call of the pass, on report \<open>r\<close>,
  resolves, and false when it rejects. \<open>isOnlineNow()\<close> is read at the start and at the
  end of a pass. The second component of the result of \<open>processQueue\<close> says whether the
  next pass was scheduled with \<open>setTimeout\<close>. \<open>saveQueue\<close> writes the queue to
  \<open>localStorage\<close> and is left out. One pass is modelled without other calls running
  between its sends.
\<close>

record 'r QueuedReport =
  report :: 'r
  qr_timestamp :: int
  attempts :: int

record 'r OfflineManager =
  queue :: "'r QueuedReport list"
  maxQueueSize :: int
  maxAge :: int
  hasSendReportFunction :: bool
  isProcessing :: bool

fun sendEach ::
  "(nat \<Rightarrow> 'r \<Rightarrow> bool) \<Rightarrow> nat \<Rightarrow> 'r QueuedReport list \<Rightarrow> 'r QueuedReport list
     \<Rightarrow> 'r QueuedReport list"
where
  "sendEach send k [] q = q"
| "sendEach send k (queuedReport # rest) q =
     (if send k (report queuedReport) then sendEach send (Suc k) rest q
      else
        let bumped = queuedReport\<lparr>attempts := attempts queuedReport + 1\<rparr>
        in if attempts bumped < 3 then sendEach send (Suc k) rest (bumped # q)
           else sendEach send (Suc k) rest q)"

definition processQueue ::
  "(nat \<Rightarrow> 'r \<Rightarrow> bool) \<Rightarrow> bool \<Rightarrow> bool \<Rightarrow> 'r OfflineManager \<Rightarrow> 'r OfflineManager \<times> bool"
where
  "processQueue send onlineAtStart onlineAtEnd s =
     (if \<not> hasSendReportFunction s \<or> isProcessing s \<or> \<not> onlineAtStart then (s, False)
      else
        let s1 = s\<lparr>isProcessing := True\<rparr>;
            batchSize = 5;
            reportsToProcess = take batchSize (queue s1);
            s2 = s1\<lparr>queue := drop batchSize (queue s1)\<rparr>;
            s3 = s2\<lparr>queue := sendEach send 0 reportsToProcess (queue s2)\<rparr>;
            scheduled = (length (queue s3) > 0 \<and> onlineAtEnd)
        in (s3\<lparr>isProcessing := False\<rparr>, scheduled))"

section \<open>BatchManagerService\<close>

text \<open>
  \<open>sendBatch\<close> is asynchronous: it swaps the current batch out at once and updates the
  statistics only after \<open>await this.sendFunction(batch)\<close> has resolved. The two halves are
  \<open>sendBatch_begin\<close> and \<open>sendBatch_complete\<close>; the batches handed to the send function
  and not yet settled are kept in \<open>inFlight\<close>. \<open>calculatePayloadSize\<close> (the byte length of
  the JSON text of the batch) is the parameter \<open>sizeOf\<close>. \<open>bm_timerSet\<close> says whether
  \<open>this.batchTimeout\<close> holds a timer handle. \<open>averageBatchSize\<close> is a quotient of two
  counters and is kept as a real number.
\<close>

record BatchConfig =
  batchSize :: int
  batchTimeout :: int
  maxPayloadSize :: int

record BatchStats =
  currentSize :: int
  totalBatches :: int
  totalErrors :: int
  averageBatchSize :: real
  lastSentAt :: "int option"

record 'e BatchManager =
  bm_config :: BatchConfig
  currentBatch :: "'e list"
  bm_timerSet :: bool
  stats :: BatchStats
  hasSendFunction :: bool
  inFlight :: "'e list list"

definition batchManagerInit :: "'e BatchManager" where
  "batchManagerInit =
     \<lparr>bm_config = \<lparr>batchSize = 10, batchTimeout = 5000, maxPayloadSize = 1048576\<rparr>,
      currentBatch = [], bm_timerSet = False,
      stats = \<lparr>currentSize = 0, totalBatches = 0, totalErrors = 0, averageBatchSize = 0,
               lastSentAt = None\<rparr>,
      hasSendFunction = False, inFlight = []\<rparr>"

definition setSendFunction :: "'e BatchManager \<Rightarrow> 'e BatchManager" where
  "setSendFunction s = s\<lparr>hasSendFunction := True\<rparr>"

definition shouldSendBatch :: "('e list \<Rightarrow> int) \<Rightarrow> 'e BatchManager \<Rightarrow> bool" where
  "shouldSendBatch sizeOf s =
     (if int (length (currentBatch s)) \<ge> batchSize (bm_config s) then True
      else sizeOf (currentBatch s) \<ge> maxPayloadSize (bm_config s))"

definition updateAverageBatchSize :: "int \<Rightarrow> 'e BatchManager \<Rightarrow> 'e BatchManager" where
  "updateAverageBatchSize sentSize s =
     (if totalBatches (stats s) > 0
      then s\<lparr>stats := (stats s)\<lparr>averageBatchSize :=
             real_of_int (totalErrors (stats s)) / real_of_int (totalBatches (stats s))\<rparr>\<rparr>
      else s)"

definition sendBatch_begin :: "'e BatchManager \<Rightarrow> 'e BatchManager" where
  "sendBatch_begin s =
     (if length (currentBatch s) = 0 then s
      else
        let batch = currentBatch s;
            s1 = s\<lparr>currentBatch := [], stats := (stats s)\<lparr>currentSize := 0\<rparr>,
                   bm_timerSet := False\<rparr>
        in if hasSendFunction s1 then s1\<lparr>inFlight := inFlight s1 @ [batch]\<rparr> else s1)"

definition sendBatch_complete :: "nat \<Rightarrow> bool \<Rightarrow> int \<Rightarrow> 'e BatchManager \<Rightarrow> 'e BatchManager" where
  "sendBatch_complete k ok clock s =
     (if k < length (inFlight s) then
        let batch = inFlight s ! k;
            s1 = s\<lparr>inFlight := take k (inFlight s) @ drop (Suc k) (inFlight s)\<rparr>
        in if ok then
             updateAverageBatchSize (int (length batch))
               (s1\<lparr>stats := (stats s1)\<lparr>totalBatches := totalBatches (stats s1) + 1,
                                         lastSentAt := Some clock\<rparr>\<rparr>)
           else s1
      else s)"

definition addToBatch :: "('e list \<Rightarrow> int) \<Rightarrow> 'e \<Rightarrow> 'e BatchManager \<Rightarrow> 'e BatchManager" where
  "addToBatch sizeOf err s =
     (let s1 = s\<lparr>currentBatch := currentBatch s @ [err]\<rparr>;
          s2 = s1\<lparr>stats := (stats s1)\<lparr>currentSize := int (length (currentBatch s1)),
                                    totalErrors := totalErrors (stats s1) + 1\<rparr>\<rparr>
      in if shouldSendBatch sizeOf s2 then sendBatch_begin s2
         else if \<not> bm_timerSet s2 then s2\<lparr>bm_timerSet := True\<rparr>
         else s2)"

definition flush :: "'e BatchManager \<Rightarrow> 'e BatchManager" where
  "flush s = (if length (currentBatch s) > 0 then sendBatch_begin s else s)"

definition batchTimeoutFires :: "'e BatchManager \<Rightarrow> 'e BatchManager" where
  "batchTimeoutFires s = (if length (currentBatch s) > 0 then sendBatch_begin s else s)"

datatype 'e bm_event =
    AddToBatch 'e
  | Flush
  | TimeoutFires
  | SendSettles nat bool int

fun bm_step :: "('e list \<Rightarrow> int) \<Rightarrow> 'e bm_event \<Rightarrow> 'e BatchManager \<Rightarrow> 'e BatchManager" where
  "bm_step sizeOf (AddToBatch err) s = addToBatch sizeOf err s"
| "bm_step sizeOf Flush s = flush s"
| "bm_step sizeOf TimeoutFires s = batchTimeoutFires s"
| "bm_step sizeOf (SendSettles k ok clock) s = sendBatch_complete k ok clock s"

fun bm_run :: "('e list \<Rightarrow> int) \<Rightarrow> 'e bm_event list \<Rightarrow> 'e BatchManager \<Rightarrow> 'e BatchManager" where
  "bm_run sizeOf [] s = s"
| "bm_run sizeOf (ev # evs) s = bm_run sizeOf evs (bm_step sizeOf ev s)"

text \<open>
  The relation between the three statistics that every event preserves; it is used in the
  proof about \<open>averageBatchSize\<close> below.
\<close>

definition avg_inv :: "BatchStats \<Rightarrow> bool" where
  "avg_inv st \<longleftrightarrow> 0 \<le> totalBatches st \<and>
     (if totalBatches st > 0
      then averageBatchSize st * real_of_int (totalBatches st) \<le> real_of_int (totalErrors st)
      else averageBatchSize st = 0)"

section \<open>RetryManagerService\<close>

text \<open>
  An error is represented by its \<open>message\<close>. \<open>js_includes s pat\<close> is \<open>s.includes(pat)\<close>.
  \<open>httpMatch\<close> is \<open>message.match(/HTTP (\d+):/)\<close> and returns the captured digits of the
  leftmost match: the literal \<open>HTTP \<close>, the longest run of decimal digits (at least
  one), then a colon. \<open>parseInt10\<close> is \<open>parseInt(_, 10)\<close> on a string of digits.
\<close>

fun js_includes :: "string \<Rightarrow> string \<Rightarrow> bool" where
  "js_includes [] pat = (pat = [])"
| "js_includes (c # cs) pat = (prefix pat (c # cs) \<or> js_includes cs pat)"

definition isDigit :: "char \<Rightarrow> bool" where
  "isDigit c \<longleftrightarrow> c \<in> set ''0123456789''"

definition digitValue :: "char \<Rightarrow> nat" where
  "digitValue c = of_char c - of_char CHR ''0''"

definition parseInt10 :: "string \<Rightarrow> nat" where
  "parseInt10 ds = foldl (\<lambda>acc d. 10 * acc + digitValue d) 0 ds"

definition httpMatchAt :: "string \<Rightarrow> string option" where
  "httpMatchAt s =
     (if prefix ''HTTP '' s then
        let rest = drop 5 s;
            digits = takeWhile isDigit rest
        in if digits \<noteq> [] \<and> prefix '':'' (dropWhile isDigit rest) then Some digits else None
      else None)"

fun httpMatch :: "string \<Rightarrow> string option" where
  "httpMatch [] = None"
| "httpMatch (c # cs) =
     (case httpMatchAt (c # cs) of Some digits \<Rightarrow> Some digits | None \<Rightarrow> httpMatch cs)"

record RetryConfig =
  maxRetries :: int
  initialDelay :: real
  maxDelay :: real

definition retryDefaultConfig :: RetryConfig where
  "retryDefaultConfig = \<lparr>maxRetries = 3, initialDelay = 1000, maxDelay = 30000\<rparr>"

definition shouldRetry :: "RetryConfig \<Rightarrow> string \<Rightarrow> nat \<Rightarrow> bool" where
  "shouldRetry cfg message attempt =
     (if int attempt \<ge> maxRetries cfg - 1 then False
      else if js_includes message ''Rate limit exceeded by server'' then True
      else if js_includes message ''Request timeout'' then True
      else if js_includes message ''Network error'' \<or> js_includes message ''Failed to fetch''
      then True
      else case httpMatch message of
             Some digits \<Rightarrow>
               let status = parseInt10 digits
               in if status = 401 \<or> status = 403 then False
                  else status \<ge> 500 \<or> status = 429 \<or> status = 408
           | None \<Rightarrow> False)"

text \<open>
  \<open>calculateDelay\<close> takes the value drawn by \<open>Math.random()\<close> (a number in \<open>[0, 1)\<close>) as
  its last argument. The arithmetic is done on real numbers.
\<close>

definition calculateDelay :: "RetryConfig \<Rightarrow> nat \<Rightarrow> real \<Rightarrow> real" where
  "calculateDelay cfg attempt random =
     (let exponentialDelay = initialDelay cfg * 2 ^ attempt;
          cappedDelay = min exponentialDelay (maxDelay cfg);
          jitter = cappedDelay * 0.25 * (random - 0.5)
      in max 0 (cappedDelay + jitter))"

text \<open>
  The operation passed to \<open>executeWithRetry\<close> is given by the outcome of each of its
  invocations: \<open>operation i\<close> is the outcome of the invocation made in loop iteration
  \<open>i\<close> (\<open>Inl\<close> the message of the error it rejects with). \<open>random i\<close> is the value
  \<open>Math.random()\<close> returns in iteration \<open>i\<close>. The result is what \<open>executeWithRetry\<close>
  returns or throws, the number of invocations of the operation, and the delays that
  were waited for, in order. \<open>throw lastError!\<close> after a loop that never ran throws
  \<open>undefined\<close>.
\<close>

datatype retry_thrown = Rethrown string | ThrownUndefined

function retryLoop ::
  "RetryConfig \<Rightarrow> (nat \<Rightarrow> string + 'a) \<Rightarrow> (nat \<Rightarrow> real) \<Rightarrow> nat \<Rightarrow> string option \<Rightarrow> nat
     \<Rightarrow> real list \<Rightarrow> (retry_thrown + 'a) \<times> nat \<times> real list"
where
  "retryLoop cfg operation random attempt lastError calls delays =
     (if int attempt < maxRetries cfg then
        (case operation attempt of
           Inr result \<Rightarrow> (Inr result, Suc calls, delays)
         | Inl err \<Rightarrow>
             if int attempt = maxRetries cfg - 1 then (Inl (Rethrown err), Suc calls, delays)
             else if \<not> shouldRetry cfg err attempt then (Inl (Rethrown err), Suc calls, delays)
             else retryLoop cfg operation random (Suc attempt) (Some err) (Suc calls)
                    (delays @ [calculateDelay cfg attempt (random attempt)]))
      else
        (Inl (case lastError of None \<Rightarrow> ThrownUndefined | Some err \<Rightarrow> Rethrown err),
         calls, delays))"
  by pat_completeness auto
termination
  by (relation "measure (\<lambda>(cfg, operation, random, attempt, lastError, calls, delays).
        nat (maxRetries cfg) - attempt)") auto

definition executeWithRetry ::
  "RetryConfig \<Rightarrow> (nat \<Rightarrow> string + 'a) \<Rightarrow> (nat \<Rightarrow> real) \<Rightarrow> (retry_thrown + 'a) \<times> nat \<times> real list"
where
  "executeWithRetry cfg operation random = retryLoop cfg operation random 0 None 0 []"

section \<open>SecurityValidatorService: sanitizeData\<close>

text \<open>
  A JavaScript string is modelled as the list of its code units, restricted to code units
  below 256, which is what \<open>char\<close> holds. \<open>lowerAscii\<close> is the case folding that the
  \<open>i\<close> flag of a regular expression applies when it compares with an ASCII pattern
  character; \<open>toLowerCase\<close> is the method of that name on this range of characters.
  \<open>isWordChar\<close>, \<open>isSpace\<close> and \<open>isLineTerminator\<close> are the classes \<open>\w\<close>,
  \<open>\s\<close> and the complement of \<open>.\<close>.
\<close>

definition upperCaseLetters :: string where
  "upperCaseLetters = ''ABCDEFGHIJKLMNOPQRSTUVWXYZ''"

definition lowerCaseLetters :: string where
  "lowerCaseLetters = ''abcdefghijklmnopqrstuvwxyz''"

definition upperCaseLatin1 :: string where
  "upperCaseLatin1 =
     [CHR 0xC0, CHR 0xC1, CHR 0xC2, CHR 0xC3, CHR 0xC4, CHR 0xC5, CHR 0xC6, CHR 0xC7,
      CHR 0xC8, CHR 0xC9, CHR 0xCA, CHR 0xCB, CHR 0xCC, CHR 0xCD, CHR 0xCE, CHR 0xCF,
      CHR 0xD0, CHR 0xD1, CHR 0xD2, CHR 0xD3, CHR 0xD4, CHR 0xD5, CHR 0xD6,
      CHR 0xD8, CHR 0xD9, CHR 0xDA, CHR 0xDB, CHR 0xDC, CHR 0xDD, CHR 0xDE]"

definition lowerCaseLatin1 :: string where
  "lowerCaseLatin1 =
     [CHR 0xE0, CHR 0xE1, CHR 0xE2, CHR 0xE3, CHR 0xE4, CHR 0xE5, CHR 0xE6, CHR 0xE7,
      CHR 0xE8, CHR 0xE9, CHR 0xEA, CHR 0xEB, CHR 0xEC, CHR 0xED, CHR 0xEE, CHR 0xEF,
      CHR 0xF0, CHR 0xF1, CHR 0xF2, CHR 0xF3, CHR 0xF4, CHR 0xF5, CHR 0xF6,
      CHR 0xF8, CHR 0xF9, CHR 0xFA, CHR 0xFB, CHR 0xFC, CHR 0xFD, CHR 0xFE]"

definition lowerAscii :: "char \<Rightarrow> char" where
  "lowerAscii c = (case map_of (zip upperCaseLetters lowerCaseLetters) c of
                     Some l \<Rightarrow> l | None \<Rightarrow> c)"

definition toLowerCase :: "string \<Rightarrow> string" where
  "toLowerCase s =
     map (\<lambda>c. case map_of (zip (upperCaseLetters @ upperCaseLatin1)
                               (lowerCaseLetters @ lowerCaseLatin1)) c of
                 Some l \<Rightarrow> l | None \<Rightarrow> c) s"

definition isWordChar :: "char \<Rightarrow> bool" where
  "isWordChar c \<longleftrightarrow> c \<in> set (lowerCaseLetters @ upperCaseLetters @ ''0123456789_'')"

definition isSpace :: "char \<Rightarrow> bool" where
  "isSpace c \<longleftrightarrow>
     c \<in> set [CHR 0x09, CHR 0x0A, CHR 0x0B, CHR 0x0C, CHR 0x0D, CHR 0x20, CHR 0xA0]"

definition isLineTerminator :: "char \<Rightarrow> bool" where
  "isLineTerminator c \<longleftrightarrow> c = CHR 0x0A \<or> c = CHR 0x0D"

text \<open>
  Each regular expression of \<open>sanitizeString\<close> becomes a function that, given the rest
  of the string from some position on, returns the length of the match starting at that
  position, if there is one. The patterns are such that backtracking never finds a match
  the first try misses: \<open>[^>]*\<close> must stop at the first \<open>>\<close>, and a run matched by
  \<open>\w+\<close> or \<open>\s*\<close> is followed by a character outside the class.
  \<^item> \<open>matchScript\<close> is \<open>/<script[^>]*>.*?<\/script>/i\<close>;
  \<^item> \<open>matchLiteral lit\<close> is \<open>/lit/i\<close> for the literals \<open>javascript:\<close> and \<open>vbscript:\<close>;
  \<^item> \<open>matchEventHandler\<close> is \<open>/on\w+\s*=/i\<close>.

  \<open>replaceAll m rep s\<close> is \<open>s.replace(re, rep)\<close> for a regular expression with the
  \<open>g\<close> flag: it scans from left to right, replaces the leftmost match and continues
  after it (\<open>skip\<close> counts the characters of the match still to be passed over).
\<close>

fun ciPrefix :: "string \<Rightarrow> string \<Rightarrow> bool" where
  "ciPrefix [] s = True"
| "ciPrefix (p # ps) [] = False"
| "ciPrefix (p # ps) (c # cs) = (lowerAscii c = p \<and> ciPrefix ps cs)"

fun lazyUntilClose :: "string \<Rightarrow> nat option" where
  "lazyUntilClose [] = None"
| "lazyUntilClose (c # cs) =
     (if ciPrefix ''</script>'' (c # cs) then Some 9
      else if isLineTerminator c then None
      else map_option Suc (lazyUntilClose cs))"

definition matchScript :: "string \<Rightarrow> nat option" where
  "matchScript s =
     (if ciPrefix ''<script'' s then
        let afterTag = drop 7 s;
            attrs = takeWhile (\<lambda>c. c \<noteq> CHR ''>'') afterTag
        in case dropWhile (\<lambda>c. c \<noteq> CHR ''>'') afterTag of
             [] \<Rightarrow> None
           | gt # body \<Rightarrow>
               (case lazyUntilClose body of
                  None \<Rightarrow> None
                | Some n \<Rightarrow> Some (7 + length attrs + 1 + n))
      else None)"

definition matchLiteral :: "string \<Rightarrow> string \<Rightarrow> nat option" where
  "matchLiteral lit s = (if ciPrefix lit s then Some (length lit) else None)"

definition matchEventHandler :: "string \<Rightarrow> nat option" where
  "matchEventHandler s =
     (if ciPrefix ''on'' s then
        let afterOn = drop 2 s;
            word = takeWhile isWordChar afterOn;
            afterWord = dropWhile isWordChar afterOn;
            spaces = takeWhile isSpace afterWord;
            afterSpaces = dropWhile isSpace afterWord
        in if word \<noteq> [] \<and> prefix ''='' afterSpaces
           then Some (2 + length word + length spaces + 1)
           else None
      else None)"

fun replaceFrom :: "(string \<Rightarrow> nat option) \<Rightarrow> string \<Rightarrow> nat \<Rightarrow> string \<Rightarrow> string" where
  "replaceFrom m rep skip [] = []"
| "replaceFrom m rep skip (c # cs) =
     (if skip > 0 then replaceFrom m rep (skip - 1) cs
      else case m (c # cs) of
             Some n \<Rightarrow> rep @ replaceFrom m rep (n - 1) cs
           | None \<Rightarrow> c # replaceFrom m rep 0 cs)"

definition replaceAll :: "(string \<Rightarrow> nat option) \<Rightarrow> string \<Rightarrow> string \<Rightarrow> string" where
  "replaceAll m rep s = replaceFrom m rep 0 s"

definition sanitizeString :: "string \<Rightarrow> string" where
  "sanitizeString str =
     take 10000
       (replaceAll matchEventHandler ''event_removed=''
         (replaceAll (matchLiteral ''vbscript:'') ''vbscript_removed:''
           (replaceAll (matchLiteral ''javascript:'') ''javascript_removed:''
             (replaceAll matchScript ''[script removed]'' str))))"

definition sensitiveKeys :: "string list" where
  "sensitiveKeys =
     [''password'', ''passwd'', ''pwd'', ''secret'', ''token'', ''key'', ''api_key'',
      ''apikey'', ''auth'', ''authorization'', ''cookie'', ''session'', ''csrf'', ''ssn'',
      ''social_security'', ''credit_card'', ''card_number'', ''cvv'', ''pin'']"

definition isSensitiveKey :: "string \<Rightarrow> bool" where
  "isSensitiveKey key =
     (let lowerKey = toLowerCase key
      in list_ex (\<lambda>sensitive. js_includes lowerKey sensitive) sensitiveKeys)"

text \<open>
  The values \<open>sanitizeData\<close> walks over: \<open>null\<close>, \<open>undefined\<close>, strings, numbers (the
  number type is a parameter, since numbers are passed through untouched), booleans, arrays
  and objects. An object is the list of its own enumerable properties in the order of
  \<open>Object.entries\<close>. \<open>setProperty k v\<close> is the assignment \<open>sanitized[k] = v\<close> on an
  object created by \<open>{}\<close>: it overwrites the value of an existing property in place,
  appends a new property, and creates no own property for the key \<open>__proto__\<close>. Values
  of other types (functions, symbols, big integers), which the source turns into strings,
  are outside this model.
\<close>

datatype 'n jsvalue =
    JNull
  | JUndefined
  | JString string
  | JNumber 'n
  | JBoolean bool
  | JArray "'n jsvalue list"
  | JObject "(string \<times> 'n jsvalue) list"

fun setProperty :: "string \<Rightarrow> 'v \<Rightarrow> (string \<times> 'v) list \<Rightarrow> (string \<times> 'v) list" where
  "setProperty k v [] = (if k = ''__proto__'' then [] else [(k, v)])"
| "setProperty k v ((k', v') # es) =
     (if k' = k then (k, v) # es else (k', v') # setProperty k v es)"

fun sanitizeData :: "'n jsvalue \<Rightarrow> 'n jsvalue"
  and sanitizeEntries :: "(string \<times> 'n jsvalue) list \<Rightarrow> (string \<times> 'n jsvalue) list
     \<Rightarrow> (string \<times> 'n jsvalue) list"
where
  "sanitizeData JNull = JNull"
| "sanitizeData JUndefined = JUndefined"
| "sanitizeData (JString s) = JString (sanitizeString s)"
| "sanitizeData (JNumber n) = JNumber n"
| "sanitizeData (JBoolean b) = JBoolean b"
| "sanitizeData (JArray items) = JArray (map sanitizeData items)"
| "sanitizeData (JObject entries) = JObject (sanitizeEntries entries [])"
| "sanitizeEntries [] sanitized = sanitized"
| "sanitizeEntries ((key, v) # entries) sanitized =
     (if isSensitiveKey key then sanitizeEntries entries sanitized
      else sanitizeEntries entries
             (setProperty (sanitizeString key) (sanitizeData v) sanitized))"

text \<open>
  Predicates used to state the results about \<open>sanitizeData\<close>. \<open>patternFree s\<close> says that
  none of the four regular expressions matches anywhere in \<open>s\<close>. \<open>patternFreeValue\<close>
  says that every string in a value is pattern free, and so is every property key that is
  not sensitive (sensitive properties are dropped whole). \<open>noSensitiveKeys\<close> says that
  no object anywhere in a value has a key that \<open>isSensitiveKey\<close> accepts.
  \<open>wellShaped\<close> collects what holds of every value that \<open>sanitizeData\<close> returns:
  strings and keys have at most 10,000 characters, and the keys of an object are distinct
  and different from \<open>__proto__\<close>.
\<close>

fun noMatch :: "(string \<Rightarrow> nat option) \<Rightarrow> string \<Rightarrow> bool" where
  "noMatch m [] = True"
| "noMatch m (c # cs) = (m (c # cs) = None \<and> noMatch m cs)"

definition patternFree :: "string \<Rightarrow> bool" where
  "patternFree s \<longleftrightarrow>
     noMatch matchScript s \<and> noMatch (matchLiteral ''javascript:'') s
     \<and> noMatch (matchLiteral ''vbscript:'') s \<and> noMatch matchEventHandler s"

fun patternFreeValue :: "'n jsvalue \<Rightarrow> bool"
  and patternFreeItems :: "'n jsvalue list \<Rightarrow> bool"
  and patternFreeEntries :: "(string \<times> 'n jsvalue) list \<Rightarrow> bool"
where
  "patternFreeValue (JString s) = patternFree s"
| "patternFreeValue (JArray items) = patternFreeItems items"
| "patternFreeValue (JObject entries) = patternFreeEntries entries"
| "patternFreeValue _ = True"
| "patternFreeItems [] = True"
| "patternFreeItems (x # xs) = (patternFreeValue x \<and> patternFreeItems xs)"
| "patternFreeEntries [] = True"
| "patternFreeEntries ((key, v) # entries) =
     ((isSensitiveKey key \<or> (patternFree key \<and> patternFreeValue v))
      \<and> patternFreeEntries entries)"

fun noSensitiveKeys :: "'n jsvalue \<Rightarrow> bool"
  and noSensitiveKeysItems :: "'n jsvalue list \<Rightarrow> bool"
  and noSensitiveKeysEntries :: "(string \<times> 'n jsvalue) list \<Rightarrow> bool"
where
  "noSensitiveKeys (JArray items) = noSensitiveKeysItems items"
| "noSensitiveKeys (JObject entries) = noSensitiveKeysEntries entries"
| "noSensitiveKeys _ = True"
| "noSensitiveKeysItems [] = True"
| "noSensitiveKeysItems (x # xs) = (noSensitiveKeys x \<and> noSensitiveKeysItems xs)"
| "noSensitiveKeysEntries [] = True"
| "noSensitiveKeysEntries ((key, v) # entries) =
     (\<not> isSensitiveKey key \<and> noSensitiveKeys v \<and> noSensitiveKeysEntries entries)"

fun wellShaped :: "'n jsvalue \<Rightarrow> bool"
  and wellShapedItems :: "'n jsvalue list \<Rightarrow> bool"
  and wellShapedEntries :: "(string \<times> 'n jsvalue) list \<Rightarrow> bool"
where
  "wellShaped (JString s) = (length s \<le> 10000)"
| "wellShaped (JArray items) = wellShapedItems items"
| "wellShaped (JObject entries) = (distinct (map fst entries) \<and> wellShapedEntries entries)"
| "wellShaped _ = True"
| "wellShapedItems [] = True"
| "wellShapedItems (x # xs) = (wellShaped x \<and> wellShapedItems xs)"
| "wellShapedEntries [] = True"
| "wellShapedEntries ((key, v) # entries) =
     (length key \<le> 10000 \<and> key \<noteq> ''__proto__'' \<and> wellShaped v
      \<and> wellShapedEntries entries)"

section \<open>Theorems\<close>

subsection \<open>RetryManagerService: attempts and delays\<close>

lemma shouldRetry_server_error:
  "int attempt < maxRetries cfg - 1 \<Longrightarrow> httpMatch m = Some ds \<Longrightarrow> parseInt10 ds = 503 \<Longrightarrow>
   shouldRetry cfg m attempt"
  by (simp add: shouldRetry_def)

lemma shouldRetry_auth_error:
  "httpMatch m = Some ds \<Longrightarrow> parseInt10 ds = 401 \<Longrightarrow>
   \<not> js_includes m ''Rate limit exceeded by server'' \<Longrightarrow>
   \<not> js_includes m ''Request timeout'' \<Longrightarrow>
   \<not> js_includes m ''Network error'' \<Longrightarrow>
   \<not> js_includes m ''Failed to fetch'' \<Longrightarrow>
   \<not> shouldRetry cfg m attempt"
  by (simp add: shouldRetry_def)

lemma retry_auth_once:
  assumes "maxRetries cfg = 3" "operation 0 = Inl m" "\<not> shouldRetry cfg m 0"
  shows "executeWithRetry cfg operation random = (Inl (Rethrown m), 1, [])"
  using assms by (simp add: executeWithRetry_def)

lemma retry_two_then_result:
  assumes "maxRetries cfg = 3" "operation 0 = Inl m0" "shouldRetry cfg m0 0"
    "operation 1 = Inl m1" "shouldRetry cfg m1 1"
  shows "executeWithRetry cfg operation random =
    ((case operation 2 of Inr v \<Rightarrow> Inr v | Inl m2 \<Rightarrow> Inl (Rethrown m2)), 3,
     [calculateDelay cfg 0 (random 0), calculateDelay cfg 1 (random 1)])"
proof -
  have s1: "retryLoop cfg operation random 0 None 0 [] =
      retryLoop cfg operation random 1 (Some m0) 1 [calculateDelay cfg 0 (random 0)]"
    using assms by (subst retryLoop.simps) simp
  have s2: "retryLoop cfg operation random 1 (Some m0) 1 [calculateDelay cfg 0 (random 0)] =
      retryLoop cfg operation random 2 (Some m1) 2
        [calculateDelay cfg 0 (random 0), calculateDelay cfg 1 (random 1)]"
    using assms by (subst retryLoop.simps) (simp add: numeral_2_eq_2)
  have s3: "retryLoop cfg operation random 2 (Some m1) 2
        [calculateDelay cfg 0 (random 0), calculateDelay cfg 1 (random 1)] =
      ((case operation 2 of Inr v \<Rightarrow> Inr v | Inl m2 \<Rightarrow> Inl (Rethrown m2)), 3,
       [calculateDelay cfg 0 (random 0), calculateDelay cfg 1 (random 1)])"
    using assms by (subst retryLoop.simps) (simp split: sum.splits)
  show ?thesis
    by (simp only: executeWithRetry_def s1 s2 s3)
qed

text \<open>
  Claim C1, as amended. With \<open>maxRetries = 3\<close> the operation is attempted at most three
  times. If its first attempt fails with an error whose message has the status 401 and
  contains none of the phrases that \<open>shouldRetry\<close> looks for before it reads the status,
  the operation is invoked once and that error is propagated with no delay. If the first
  two attempts fail with status 503, each is followed by one delay and a third attempt is
  made: when it succeeds, \<open>executeWithRetry\<close> returns its result after exactly two delayed
  retries; when it fails, its error is propagated after three invocations and two delays,
  and no fourth attempt is made.
\<close>

theorem retry_three_attempts:
  assumes "maxRetries cfg = 3"
  shows "(operation 0 = Inl m \<and> httpMatch m = Some ds \<and> parseInt10 ds = 401
          \<and> \<not> js_includes m ''Rate limit exceeded by server''
          \<and> \<not> js_includes m ''Request timeout''
          \<and> \<not> js_includes m ''Network error''
          \<and> \<not> js_includes m ''Failed to fetch''
         \<longrightarrow> executeWithRetry cfg operation random = (Inl (Rethrown m), 1, []))
    \<and> (operation 0 = Inl m0 \<and> httpMatch m0 = Some ds0 \<and> parseInt10 ds0 = 503
        \<and> operation 1 = Inl m1 \<and> httpMatch m1 = Some ds1 \<and> parseInt10 ds1 = 503
         \<longrightarrow> (operation 2 = Inr v \<longrightarrow>
                executeWithRetry cfg operation random =
                  (Inr v, 3, [calculateDelay cfg 0 (random 0), calculateDelay cfg 1 (random 1)]))
             \<and> (operation 2 = Inl m2 \<longrightarrow>
                executeWithRetry cfg operation random =
                  (Inl (Rethrown m2), 3,
                   [calculateDelay cfg 0 (random 0), calculateDelay cfg 1 (random 1)])))"
proof -
  have a: "executeWithRetry cfg operation random = (Inl (Rethrown m), 1, [])"
    if "operation 0 = Inl m" "httpMatch m = Some ds" "parseInt10 ds = 401"
      "\<not> js_includes m ''Rate limit exceeded by server''"
      "\<not> js_includes m ''Request timeout''"
      "\<not> js_includes m ''Network error''"
      "\<not> js_includes m ''Failed to fetch''"
    using retry_auth_once [of cfg operation m random] assms that(1)
      shouldRetry_auth_error [OF that(2-7), of cfg 0] by simp
  have b: "executeWithRetry cfg operation random =
      ((case operation 2 of Inr v \<Rightarrow> Inr v | Inl m2 \<Rightarrow> Inl (Rethrown m2)), 3,
       [calculateDelay cfg 0 (random 0), calculateDelay cfg 1 (random 1)])"
    if "operation 0 = Inl m0" "httpMatch m0 = Some ds0" "parseInt10 ds0 = 503"
      "operation 1 = Inl m1" "httpMatch m1 = Some ds1" "parseInt10 ds1 = 503"
  proof -
    have "shouldRetry cfg m0 0" "shouldRetry cfg m1 1"
      using assms that by (simp_all add: shouldRetry_server_error)
    then show ?thesis
      using retry_two_then_result [of cfg operation m0 m1 random] assms that(1,4) by simp
  qed
  show ?thesis
    using a b by simp
qed

theorem retry_three_attempts_witness:
  "executeWithRetry retryDefaultConfig
      (\<lambda>i. if i = 0 then Inl ''HTTP 401: Unauthorized'' else Inr ''ok'') (\<lambda>i. 1 / 2)
     = (Inl (Rethrown ''HTTP 401: Unauthorized''), 1, [])
   \<and> executeWithRetry retryDefaultConfig
      (\<lambda>i. if i < 2 then Inl ''HTTP 503: Service Unavailable'' else Inr ''ok'') (\<lambda>i. 1 / 2)
     = (Inr ''ok'', 3, [calculateDelay retryDefaultConfig 0 (1 / 2),
                        calculateDelay retryDefaultConfig 1 (1 / 2)])
   \<and> executeWithRetry retryDefaultConfig
      (\<lambda>i. if i < 3 then Inl ''HTTP 503: Service Unavailable'' else Inr ''ok'') (\<lambda>i. 1 / 2)
     = (Inl (Rethrown ''HTTP 503: Service Unavailable''), 3,
        [calculateDelay retryDefaultConfig 0 (1 / 2),
         calculateDelay retryDefaultConfig 1 (1 / 2)])"
proof -
  have h: "maxRetries retryDefaultConfig = 3" by (simp add: retryDefaultConfig_def)
  have m401: "httpMatch ''HTTP 401: Unauthorized'' = Some ''401''" "parseInt10 ''401'' = 401"
    "\<not> js_includes ''HTTP 401: Unauthorized'' ''Rate limit exceeded by server''"
    "\<not> js_includes ''HTTP 401: Unauthorized'' ''Request timeout''"
    "\<not> js_includes ''HTTP 401: Unauthorized'' ''Network error''"
    "\<not> js_includes ''HTTP 401: Unauthorized'' ''Failed to fetch''"
    by (simp_all add: httpMatchAt_def isDigit_def parseInt10_def digitValue_def)
  have m503: "httpMatch ''HTTP 503: Service Unavailable'' = Some ''503''"
    "parseInt10 ''503'' = 503"
    by (simp_all add: httpMatchAt_def isDigit_def parseInt10_def digitValue_def)
  show ?thesis
    using m401 m503
      retry_three_attempts [OF h,
        of "\<lambda>i. if i = 0 then Inl ''HTTP 401: Unauthorized'' else Inr ''ok''"
           "''HTTP 401: Unauthorized''" "''401''" "\<lambda>i. 1 / 2"]
      retry_three_attempts [OF h,
        of "\<lambda>i. if i < 2 then Inl ''HTTP 503: Service Unavailable'' else Inr ''ok''"
           "''HTTP 401: Unauthorized''" "''401''" "\<lambda>i. 1 / 2"
           "''HTTP 503: Service Unavailable''" "''503''"
           "''HTTP 503: Service Unavailable''" "''503''" "''ok''"]
      retry_three_attempts [OF h,
        of "\<lambda>i. if i < 3 then Inl ''HTTP 503: Service Unavailable'' else Inr ''ok''"
           "''HTTP 401: Unauthorized''" "''401''" "\<lambda>i. 1 / 2"
           "''HTTP 503: Service Unavailable''" "''503''"
           "''HTTP 503: Service Unavailable''" "''503''" "''ok''"
           "''HTTP 503: Service Unavailable''"]
    by simp
qed

theorem retry_three_attempts_counterexample:
  "executeWithRetry retryDefaultConfig
      (\<lambda>i. if i < 3 then Inl ''HTTP 503: Service Unavailable'' else Inr ''ok'') (\<lambda>i. 1 / 2)
     = (Inl (Rethrown ''HTTP 503: Service Unavailable''), 3, [1000, 2000])
   \<and> executeWithRetry retryDefaultConfig
      (\<lambda>i. if i = 0 then Inl ''HTTP 401: Network error'' else Inr ''ok'') (\<lambda>i. 1 / 2)
     = (Inr ''ok'', 2, [1000])"
  by (simp add: executeWithRetry_def shouldRetry_def retryDefaultConfig_def httpMatchAt_def
        isDigit_def parseInt10_def digitValue_def calculateDelay_def)

text \<open>
  Claim C7. With a draw \<open>random\<close> in \<open>[0, 1)\<close> and delays that are not negative, the
  delay before the next retry is \<open>m + m * 0.25 * (random - 0.5)\<close> for
  \<open>m = min (initialDelay * 2 ^ k) maxDelay\<close>: the jitter is applied after the cap, and it
  lies between \<open>-12.5%\<close> and \<open>+12.5%\<close> of \<open>m\<close>, so the delay lies in
  \<open>[0.875 * m, 1.125 * m]\<close>. This is inside the interval \<open>[0.75 * m, 1.25 * m]\<close> of
  the claim, but the jitter does not span \<open>\<plusminus>25%\<close> as the claim and the comment in the
  source say: with the default configuration, \<open>k = 0\<close> and the draw \<open>0\<close> the delay is
  \<open>875\<close>, not \<open>750\<close>.
\<close>

theorem calculateDelay_jitter_range:
  assumes "0 \<le> random" and "random < 1" and "0 \<le> initialDelay cfg" and "0 \<le> maxDelay cfg"
  shows "calculateDelay cfg k random
           = min (initialDelay cfg * 2 ^ k) (maxDelay cfg)
             + min (initialDelay cfg * 2 ^ k) (maxDelay cfg) * 0.25 * (random - 0.5)
    \<and> 0.875 * min (initialDelay cfg * 2 ^ k) (maxDelay cfg) \<le> calculateDelay cfg k random
    \<and> calculateDelay cfg k random \<le> 1.125 * min (initialDelay cfg * 2 ^ k) (maxDelay cfg)"
proof -
  define m where "m = min (initialDelay cfg * 2 ^ k) (maxDelay cfg)"
  define x where "x = m * (random - 1 / 2)"
  have m: "0 \<le> m" using assms(3,4) by (simp add: m_def)
  have "m * (- (1 / 2)) \<le> m * (random - 1 / 2)"
    by (rule mult_left_mono) (use assms(1) m in simp_all)
  then have lo: "- (m / 2) \<le> x" by (simp add: x_def)
  have "m * (random - 1 / 2) \<le> m * (1 / 2)"
    by (rule mult_left_mono) (use assms(2) m in simp_all)
  then have hi: "x \<le> m / 2" by (simp add: x_def)
  have j: "m * 0.25 * (random - 0.5) = x / 4" by (simp add: x_def)
  have eq: "calculateDelay cfg k random = max 0 (m + x / 4)"
    unfolding calculateDelay_def Let_def m_def [symmetric] j ..
  have eq2: "max 0 (m + x / 4) = m + x / 4" using m lo by simp
  have c1: "calculateDelay cfg k random = m + m * 0.25 * (random - 0.5)"
    by (simp only: eq eq2 j)
  have c2: "0.875 * m \<le> calculateDelay cfg k random"
    using lo by (simp add: eq eq2)
  have c3: "calculateDelay cfg k random \<le> 1.125 * m"
    using hi by (simp add: eq eq2)
  show ?thesis
    using c1 c2 c3 unfolding m_def by blast
qed


theorem calculateDelay_jitter_range_witness:
  "calculateDelay retryDefaultConfig 0 0 = 875
   \<and> 0.875 * min (initialDelay retryDefaultConfig * 2 ^ 0) (maxDelay retryDefaultConfig)
       \<le> calculateDelay retryDefaultConfig 0 0"
proof -
  have h: "(0::real) \<le> 0" "(0::real) < 1" "0 \<le> initialDelay retryDefaultConfig"
    "0 \<le> maxDelay retryDefaultConfig"
    by (simp_all add: retryDefaultConfig_def)
  have v: "initialDelay retryDefaultConfig = 1000" "maxDelay retryDefaultConfig = 30000"
    by (simp_all add: retryDefaultConfig_def)
  show ?thesis
    using calculateDelay_jitter_range [OF h, of 0] by (simp add: v)
qed

subsection \<open>RateLimiterService: duplicate suppression\<close>

lemma rl_step_config: "rl_config (rl_step c s) = rl_config s"
  by (cases c)
     (simp_all add: recordRequest_def canMakeRequest_def cleanup_def cleanupOldRequests_def
        cleanupOldFingerprints_def Let_def split: option.splits)

lemma rl_run_config: "rl_config (rl_run cs s) = rl_config s"
  by (induction cs arbitrary: s) (simp_all add: rl_step_config)

lemma rl_step_absent:
  "errorFingerprints s f = None \<Longrightarrow> \<not> records f c \<Longrightarrow> errorFingerprints (rl_step c s) f = None"
  by (cases c)
     (auto simp add: recordRequest_def canMakeRequest_def cleanup_def cleanupOldRequests_def
        cleanupOldFingerprints_def Let_def split: option.splits)

lemma rl_run_absent:
  "errorFingerprints s f = None \<Longrightarrow> \<forall>c \<in> set cs. \<not> records f c \<Longrightarrow>
   errorFingerprints (rl_run cs s) f = None"
  by (induction cs arbitrary: s) (simp_all add: rl_step_absent)

lemma rl_step_present:
  "errorFingerprints s f = Some t \<Longrightarrow> \<not> records f c \<Longrightarrow>
   errorFingerprints (rl_step c s) f = Some t \<or> errorFingerprints (rl_step c s) f = None"
  by (cases c)
     (auto simp add: recordRequest_def canMakeRequest_def cleanup_def cleanupOldRequests_def
        cleanupOldFingerprints_def Let_def split: option.splits)

lemma rl_run_present:
  "errorFingerprints s f = Some t \<Longrightarrow> \<forall>c \<in> set cs. \<not> records f c \<Longrightarrow>
   errorFingerprints (rl_run cs s) f = Some t \<or> errorFingerprints (rl_run cs s) f = None"
proof (induction cs arbitrary: s)
  case Nil
  then show ?case by simp
next
  case (Cons c cs)
  then have "errorFingerprints (rl_step c s) f = Some t \<or> errorFingerprints (rl_step c s) f = None"
    by (simp add: rl_step_present)
  then show ?case
    using Cons.IH [of "rl_step c s"] Cons.prems(2) rl_run_absent [of "rl_step c s" f cs]
    by auto
qed

lemma rl_step_kept:
  "errorFingerprints s f = Some t \<Longrightarrow> \<not> records f c \<Longrightarrow>
   \<forall>now. c = Cleanup now \<longrightarrow> now - t < duplicateErrorWindow (rl_config s) \<Longrightarrow>
   errorFingerprints (rl_step c s) f = Some t"
  by (cases c)
     (auto simp add: recordRequest_def canMakeRequest_def cleanup_def cleanupOldRequests_def
        cleanupOldFingerprints_def Let_def split: option.splits)

lemma rl_run_kept:
  "errorFingerprints s f = Some t \<Longrightarrow> \<forall>c \<in> set cs. \<not> records f c \<Longrightarrow>
   \<forall>now. Cleanup now \<in> set cs \<longrightarrow> now - t < duplicateErrorWindow (rl_config s) \<Longrightarrow>
   errorFingerprints (rl_run cs s) f = Some t"
proof (induction cs arbitrary: s)
  case Nil
  then show ?case by simp
next
  case (Cons c cs)
  have "errorFingerprints (rl_step c s) f = Some t"
    using Cons.prems by (intro rl_step_kept [where t = t]) simp_all
  moreover have "\<forall>now. Cleanup now \<in> set cs \<longrightarrow>
      now - t < duplicateErrorWindow (rl_config (rl_step c s))"
    using Cons.prems(3) by (simp add: rl_step_config)
  ultimately show ?case
    using Cons.IH [of "rl_step c s"] Cons.prems(2) by simp
qed

lemma recordRequest_sets:
  "f \<noteq> [] \<Longrightarrow> errorFingerprints (recordRequest t (Some f) s) f = Some t"
  by (simp add: recordRequest_def)

lemma recordRequest_config: "rl_config (recordRequest t fp s) = rl_config s"
  by (simp add: recordRequest_def Let_def split: option.splits)

text \<open>
  Claim C2, as amended. Let \<open>f\<close> be a non-empty fingerprint, recorded by \<open>recordRequest\<close>
  at a non-zero clock reading \<open>t\<close>, and let any calls follow that do not record \<open>f\<close>
  again (\<open>recordRequest\<close> for other fingerprints or none, \<open>canMakeRequest\<close>, \<open>cleanup\<close>).
  Then \<open>canReportError f\<close> at a time \<open>t'\<close> with \<open>t' - t \<le> duplicateErrorWindow\<close> is
  false, provided every \<open>cleanup\<close> in between ran less than \<open>duplicateErrorWindow\<close> after
  \<open>t\<close>; at a time \<open>t'\<close> with \<open>t' - t > duplicateErrorWindow\<close> it is true. A fingerprint
  with no entry in \<open>errorFingerprints\<close> yields true, and keeps doing so while it is not
  recorded.
\<close>

theorem duplicate_window:
  assumes "\<forall>c \<in> set cs. \<not> records f c"
  shows "(f \<noteq> [] \<and> t \<noteq> 0 \<and> t' - t \<le> duplicateErrorWindow (rl_config s)
          \<and> (\<forall>now. Cleanup now \<in> set cs \<longrightarrow> now - t < duplicateErrorWindow (rl_config s))
          \<longrightarrow> \<not> canReportError t' f (rl_run cs (recordRequest t (Some f) s)))
    \<and> (f \<noteq> [] \<and> t' - t > duplicateErrorWindow (rl_config s)
          \<longrightarrow> canReportError t' f (rl_run cs (recordRequest t (Some f) s)))
    \<and> (errorFingerprints s f = None \<longrightarrow> canReportError t' f (rl_run cs s))"
proof -
  let ?s1 = "recordRequest t (Some f) s"
  have cfg: "rl_config (rl_run cs ?s1) = rl_config s"
    by (simp add: rl_run_config recordRequest_config)
  have a: "\<not> canReportError t' f (rl_run cs ?s1)"
    if "f \<noteq> []" "t \<noteq> 0" "t' - t \<le> duplicateErrorWindow (rl_config s)"
      "\<forall>now. Cleanup now \<in> set cs \<longrightarrow> now - t < duplicateErrorWindow (rl_config s)"
  proof -
    have "errorFingerprints ?s1 f = Some t"
      using that(1) by (rule recordRequest_sets)
    then have "errorFingerprints (rl_run cs ?s1) f = Some t"
      using assms that(4) by (intro rl_run_kept [where t = t]) (simp_all add: recordRequest_config)
    then show ?thesis
      using that(2,3) by (simp add: canReportError_def cfg)
  qed
  have b: "canReportError t' f (rl_run cs ?s1)"
    if "f \<noteq> []" "t' - t > duplicateErrorWindow (rl_config s)"
  proof -
    have "errorFingerprints ?s1 f = Some t"
      using that(1) by (rule recordRequest_sets)
    then show ?thesis
      using rl_run_present [of ?s1 f t cs] assms that(2)
      by (auto simp add: canReportError_def cfg)
  qed
  have c: "canReportError t' f (rl_run cs s)" if "errorFingerprints s f = None"
    using rl_run_absent [OF that assms] by (simp add: canReportError_def)
  show ?thesis using a b c by blast
qed

theorem duplicate_window_witness:
  "\<not> canReportError 6000 ''1x2y''
      (rl_run [RecordRequest 1500 (Some ''zz''), CanMakeRequest 2000, Cleanup 3000]
         (recordRequest 1000 (Some ''1x2y'') rateLimiterInit))
   \<and> canReportError 6001 ''1x2y''
      (rl_run [RecordRequest 1500 (Some ''zz''), CanMakeRequest 2000, Cleanup 3000]
         (recordRequest 1000 (Some ''1x2y'') rateLimiterInit))
   \<and> canReportError 6000 ''1x2y''
      (rl_run [RecordRequest 1500 (Some ''zz''), CanMakeRequest 2000, Cleanup 3000]
         rateLimiterInit)"
proof -
  let ?cs = "[RecordRequest 1500 (Some ''zz''), CanMakeRequest 2000, Cleanup 3000]"
  have h: "\<forall>c \<in> set ?cs. \<not> records ''1x2y'' c"
    by simp
  have w: "duplicateErrorWindow (rl_config rateLimiterInit) = 5000"
    "errorFingerprints rateLimiterInit ''1x2y'' = None"
    by (simp_all add: rateLimiterInit_def)
  show ?thesis
    using w duplicate_window [OF h, where t = 1000 and t' = 6000 and s = rateLimiterInit]
      duplicate_window [OF h, where t = 1000 and t' = 6001 and s = rateLimiterInit]
    by simp
qed

theorem duplicate_window_counterexample:
  "canReportError 1000 '''' (recordRequest 1000 (Some '''') rateLimiterInit)
   \<and> canReportError 6000 ''1x2y''
       (cleanup 6000 (recordRequest 1000 (Some ''1x2y'') rateLimiterInit))"
  by (simp add: canReportError_def recordRequest_def rateLimiterInit_def cleanup_def
        cleanupOldRequests_def cleanupOldFingerprints_def)

subsection \<open>CircuitBreakerService: tripping and recovery\<close>

lemma execute_config: "cb_config (snd (snd (execute tcall operation tfail ttrip s))) = cb_config s"
  by (simp add: execute_def isCallAllowed_def onSuccess_def onFailure_def tripCircuit_def
        reset_def Let_def split: sum.splits)

lemma failed_call_from_open:
  "cb_state s = OPEN \<Longrightarrow> cb_state (snd (snd (execute tcall (Inl err) tfail ttrip s))) = OPEN"
  by (simp add: execute_def isCallAllowed_def onFailure_def tripCircuit_def Let_def)

lemma failed_call_from_closed:
  "cb_state s = CLOSED \<Longrightarrow>
   snd (snd (execute tcall (Inl err) tfail ttrip s)) =
     (if failureCount s + 1 \<ge> failureThreshold (cb_config s)
      then s\<lparr>failureCount := failureCount s + 1, lastFailureTime := Some tfail,
             cb_state := OPEN, nextRetryTime := Some (ttrip + timeout (cb_config s))\<rparr>
      else s\<lparr>failureCount := failureCount s + 1, lastFailureTime := Some tfail\<rparr>)"
  by (simp add: execute_def isCallAllowed_def onFailure_def tripCircuit_def Let_def)

lemma failedCalls_open:
  "cb_state s = OPEN \<or>
   (cb_state s = CLOSED \<and> cs \<noteq> [] \<and>
    failureThreshold (cb_config s) \<le> failureCount s + int (length cs))
   \<Longrightarrow> cb_state (failedCalls cs s) = OPEN"
proof (induction cs arbitrary: s)
  case Nil
  then show ?case by simp
next
  case (Cons c cs)
  obtain tcall err tfail ttrip where c: "c = (tcall, err, tfail, ttrip)"
    by (cases c) auto
  let ?s1 = "snd (snd (execute tcall (Inl err :: string + unit) tfail ttrip s))"
  have "cb_state ?s1 = OPEN \<or>
        (cb_state ?s1 = CLOSED \<and> cs \<noteq> [] \<and>
         failureThreshold (cb_config ?s1) \<le> failureCount ?s1 + int (length cs))"
  proof (cases "cb_state s = OPEN")
    case True
    then show ?thesis by (simp add: failed_call_from_open)
  next
    case False
    with Cons.prems have cl: "cb_state s = CLOSED"
      and le: "failureThreshold (cb_config s) \<le> failureCount s + int (length (c # cs))"
      by auto
    show ?thesis
      using le by (auto simp add: failed_call_from_closed [OF cl] cl)
  qed
  then have "cb_state (failedCalls cs ?s1) = OPEN" by (rule Cons.IH)
  then show ?case by (simp add: c)
qed

lemma failedCalls_fresh:
  "cb_state s = CLOSED \<Longrightarrow> cs \<noteq> [] \<Longrightarrow>
   failureCount s + int (length cs) = failureThreshold (cb_config s) \<Longrightarrow>
   failedCalls cs s =
     s\<lparr>failureCount := failureThreshold (cb_config s),
       lastFailureTime := Some (fst (snd (snd (last cs)))),
       cb_state := OPEN,
       nextRetryTime := Some (snd (snd (snd (last cs))) + timeout (cb_config s))\<rparr>"
proof (induction cs arbitrary: s)
  case Nil
  then show ?case by simp
next
  case (Cons c cs)
  obtain tcall err tfail ttrip where c: "c = (tcall, err, tfail, ttrip)"
    by (cases c) auto
  show ?case
  proof (cases "cs = []")
    case True
    with Cons.prems show ?thesis
      by (simp add: c failed_call_from_closed)
  next
    case False
    let ?s1 = "s\<lparr>failureCount := failureCount s + 1, lastFailureTime := Some tfail\<rparr>"
    have lt: "\<not> failureThreshold (cb_config s) \<le> failureCount s + 1"
      using Cons.prems False by (cases cs) auto
    have step: "snd (snd (execute tcall (Inl err :: string + unit) tfail ttrip s)) = ?s1"
      using Cons.prems(1) lt by (simp add: failed_call_from_closed)
    have "failedCalls cs ?s1 =
      ?s1\<lparr>failureCount := failureThreshold (cb_config ?s1),
       lastFailureTime := Some (fst (snd (snd (last cs)))),
       cb_state := OPEN,
       nextRetryTime := Some (snd (snd (snd (last cs))) + timeout (cb_config ?s1))\<rparr>"
      using Cons.prems False by (intro Cons.IH) auto
    then show ?thesis using False by (simp add: c step)
  qed
qed

lemma open_rejects:
  "cb_state s = OPEN \<Longrightarrow> nextRetryTime s = Some r \<Longrightarrow> tcall < r \<Longrightarrow>
   execute tcall operation tfail ttrip s = (Inl CircuitOpenError, False, s)"
  by (simp add: execute_def isCallAllowed_def)

lemma open_half_opens:
  "cb_state s = OPEN \<Longrightarrow> nextRetryTime s = Some r \<Longrightarrow> r \<noteq> 0 \<Longrightarrow> r \<le> tcall \<Longrightarrow>
   isCallAllowed tcall s = (True, s\<lparr>cb_state := HALF_OPEN\<rparr>)
   \<and> execute tcall (Inr v) tfail ttrip s =
       (Inr v, True, s\<lparr>cb_state := CLOSED, failureCount := 0, successCount := 0,
                       lastFailureTime := None, nextRetryTime := None\<rparr>)"
  by (simp add: execute_def isCallAllowed_def truthy_def onSuccess_def reset_def Let_def)

text \<open>
  Claim C3. Start in state \<open>CLOSED\<close> with a failure counter that is not negative, and
  make \<open>failureThreshold\<close> (at least one) \<open>execute\<close> calls in a row whose operations all
  fail. Then the state is \<open>OPEN\<close>; when the counter started at zero, the circuit tripped
  in the last of these calls and \<open>nextRetryTime\<close> is that call's trip time plus
  \<open>timeout\<close>. In the tripped state every \<open>execute\<close> call made before \<open>nextRetryTime\<close>
  is rejected with the circuit-open error, does not invoke its operation and leaves the
  state as it is (so the same holds for the call after it). A call made at or after
  \<open>nextRetryTime\<close> (a non-zero clock reading) is allowed with the state set to
  \<open>HALF_OPEN\<close>; if its operation succeeds the call returns the operation's result and the
  state is \<open>CLOSED\<close> with \<open>failureCount\<close> and \<open>successCount\<close> both zero.
\<close>

theorem circuit_trips_then_recovers:
  assumes "cb_state s = CLOSED" and "0 \<le> failureCount s"
    and "int (length cs) = failureThreshold (cb_config s)" and "cs \<noteq> []"
  shows "cb_state (failedCalls cs s) = OPEN
    \<and> (failureCount s = 0 \<longrightarrow>
         nextRetryTime (failedCalls cs s)
           = Some (snd (snd (snd (last cs))) + timeout (cb_config s)))
    \<and> (nextRetryTime (failedCalls cs s) = Some r \<and> tcall < r \<longrightarrow>
         execute tcall (operation :: string + 'a) tfail ttrip (failedCalls cs s)
           = (Inl CircuitOpenError, False, failedCalls cs s))
    \<and> (nextRetryTime (failedCalls cs s) = Some r \<and> r \<noteq> 0 \<and> r \<le> tcall \<longrightarrow>
         isCallAllowed tcall (failedCalls cs s)
           = (True, (failedCalls cs s)\<lparr>cb_state := HALF_OPEN\<rparr>)
         \<and> fst (execute tcall (Inr v :: string + 'a) tfail ttrip (failedCalls cs s)) = Inr v
         \<and> fst (snd (execute tcall (Inr v :: string + 'a) tfail ttrip (failedCalls cs s)))
         \<and> cb_state (snd (snd (execute tcall (Inr v :: string + 'a) tfail ttrip
              (failedCalls cs s)))) = CLOSED
         \<and> failureCount (snd (snd (execute tcall (Inr v :: string + 'a) tfail ttrip
              (failedCalls cs s)))) = 0
         \<and> successCount (snd (snd (execute tcall (Inr v :: string + 'a) tfail ttrip
              (failedCalls cs s)))) = 0)"
proof -
  have op: "cb_state (failedCalls cs s) = OPEN"
    using assms by (intro failedCalls_open) simp
  have fresh: "nextRetryTime (failedCalls cs s)
                 = Some (snd (snd (snd (last cs))) + timeout (cb_config s))"
    if "failureCount s = 0"
    using failedCalls_fresh [of s cs] assms that by simp
  have rej: "execute tcall operation tfail ttrip (failedCalls cs s)
               = (Inl CircuitOpenError, False, failedCalls cs s)"
    if "nextRetryTime (failedCalls cs s) = Some r" "tcall < r"
    using open_rejects [OF op that] .
  have half: "isCallAllowed tcall (failedCalls cs s)
                = (True, (failedCalls cs s)\<lparr>cb_state := HALF_OPEN\<rparr>)
      \<and> execute tcall (Inr v :: string + 'a) tfail ttrip (failedCalls cs s) =
          (Inr v, True, (failedCalls cs s)\<lparr>cb_state := CLOSED, failureCount := 0,
             successCount := 0, lastFailureTime := None, nextRetryTime := None\<rparr>)"
    if "nextRetryTime (failedCalls cs s) = Some r" "r \<noteq> 0" "r \<le> tcall"
    using open_half_opens [OF op that] .
  show ?thesis
    using op fresh rej half by simp
qed

theorem circuit_trips_then_recovers_witness:
  "cb_state circuitBreakerInit = CLOSED \<and> 0 \<le> failureCount circuitBreakerInit
   \<and> int (length [(1000, ''HTTP 503: a'', 1010, 1010), (2000, ''HTTP 503: b'', 2010, 2010),
        (3000, ''HTTP 503: c'', 3010, 3010), (4000, ''HTTP 503: d'', 4010, 4010),
        (5000, ''HTTP 503: e'', 5010, 5011 :: int)])
      = failureThreshold (cb_config circuitBreakerInit)
   \<and> cb_state (failedCalls [(1000, ''HTTP 503: a'', 1010, 1010),
        (2000, ''HTTP 503: b'', 2010, 2010), (3000, ''HTTP 503: c'', 3010, 3010),
        (4000, ''HTTP 503: d'', 4010, 4010), (5000, ''HTTP 503: e'', 5010, 5011)]
        circuitBreakerInit) = OPEN
   \<and> nextRetryTime (failedCalls [(1000, ''HTTP 503: a'', 1010, 1010),
        (2000, ''HTTP 503: b'', 2010, 2010), (3000, ''HTTP 503: c'', 3010, 3010),
        (4000, ''HTTP 503: d'', 4010, 4010), (5000, ''HTTP 503: e'', 5010, 5011)]
        circuitBreakerInit) = Some 35011
   \<and> execute 35010 (Inr True :: string + bool) 35010 35010
        (failedCalls [(1000, ''HTTP 503: a'', 1010, 1010),
          (2000, ''HTTP 503: b'', 2010, 2010), (3000, ''HTTP 503: c'', 3010, 3010),
          (4000, ''HTTP 503: d'', 4010, 4010), (5000, ''HTTP 503: e'', 5010, 5011)]
          circuitBreakerInit)
      = (Inl CircuitOpenError, False,
         failedCalls [(1000, ''HTTP 503: a'', 1010, 1010),
          (2000, ''HTTP 503: b'', 2010, 2010), (3000, ''HTTP 503: c'', 3010, 3010),
          (4000, ''HTTP 503: d'', 4010, 4010), (5000, ''HTTP 503: e'', 5010, 5011)]
          circuitBreakerInit)
   \<and> cb_state (snd (snd (execute 35011 (Inr True :: string + bool) 35020 35020
        (failedCalls [(1000, ''HTTP 503: a'', 1010, 1010),
          (2000, ''HTTP 503: b'', 2010, 2010), (3000, ''HTTP 503: c'', 3010, 3010),
          (4000, ''HTTP 503: d'', 4010, 4010), (5000, ''HTTP 503: e'', 5010, 5011)]
          circuitBreakerInit)))) = CLOSED"
proof -
  let ?cs = "[(1000, ''HTTP 503: a'', 1010, 1010), (2000, ''HTTP 503: b'', 2010, 2010),
        (3000, ''HTTP 503: c'', 3010, 3010), (4000, ''HTTP 503: d'', 4010, 4010),
        (5000, ''HTTP 503: e'', 5010, 5011 :: int)]"
  have h: "cb_state circuitBreakerInit = CLOSED" "0 \<le> failureCount circuitBreakerInit"
    "int (length ?cs) = failureThreshold (cb_config circuitBreakerInit)" "?cs \<noteq> []"
    by (simp_all add: circuitBreakerInit_def)
  have z: "failureCount circuitBreakerInit = 0" "timeout (cb_config circuitBreakerInit) = 30000"
    by (simp_all add: circuitBreakerInit_def)
  show ?thesis
    using h z
      circuit_trips_then_recovers [OF h, of 35011 35010 "Inr True" 35010 35010 True]
      circuit_trips_then_recovers [OF h, of 35011 35011 "Inr True" 35020 35020 True]
    by simp
qed

subsection \<open>QuotaManagerService: order of the checks\<close>

lemma checkAndResetQuotas_config: "q_config (checkAndResetQuotas clk s) = q_config s"
  by (simp add: checkAndResetQuotas_def Let_def)

lemma checkAndResetQuotas_burst_kept:
  "clk_now clk < resetTime (burst (q_state s)) \<Longrightarrow>
   burst (q_state (checkAndResetQuotas clk s)) = burst (q_state s)"
  by (simp add: checkAndResetQuotas_def Let_def)

lemma recordErrorSent_config: "q_config (recordErrorSent clk sz s) = q_config s"
  by (simp add: recordErrorSent_def Let_def checkAndResetQuotas_config)

lemma recordErrorSent_counters:
  "used (daily (q_state (recordErrorSent clk sz s)))
     = used (daily (q_state (checkAndResetQuotas clk s))) + 1
   \<and> used (monthly (q_state (recordErrorSent clk sz s)))
     = used (monthly (q_state (checkAndResetQuotas clk s))) + 1
   \<and> used (burst (q_state (recordErrorSent clk sz s)))
     = used (burst (q_state (checkAndResetQuotas clk s))) + 1
   \<and> resetTime (daily (q_state (recordErrorSent clk sz s)))
     = resetTime (daily (q_state (checkAndResetQuotas clk s)))
   \<and> resetTime (monthly (q_state (recordErrorSent clk sz s)))
     = resetTime (monthly (q_state (checkAndResetQuotas clk s)))
   \<and> resetTime (burst (q_state (recordErrorSent clk sz s)))
     = resetTime (burst (q_state (checkAndResetQuotas clk s)))"
  by (simp add: recordErrorSent_def Let_def)

lemma recordErrorSent_burst:
  "clk_now clk < resetTime (burst (q_state s)) \<Longrightarrow>
   burst (q_state (recordErrorSent clk sz s))
     = (burst (q_state s))\<lparr>used := used (burst (q_state s)) + 1\<rparr>"
  by (simp add: recordErrorSent_def Let_def checkAndResetQuotas_burst_kept)

lemma recordErrorsSent_config: "q_config (recordErrorsSent cs s) = q_config s"
  by (induction cs s rule: recordErrorsSent.induct) (simp_all add: recordErrorSent_config)

lemma recordErrorsSent_burst:
  "\<forall>c \<in> set cs. clk_now (fst c) < resetTime (burst (q_state s)) \<Longrightarrow>
   burst (q_state (recordErrorsSent cs s))
     = (burst (q_state s))\<lparr>used := used (burst (q_state s)) + int (length cs)\<rparr>"
proof (induction cs s rule: recordErrorsSent.induct)
  case (1 s)
  then show ?case by simp
next
  case (2 clk payloadSize cs s)
  have b: "burst (q_state (recordErrorSent clk payloadSize s))
            = (burst (q_state s))\<lparr>used := used (burst (q_state s)) + 1\<rparr>"
    using "2.prems" by (simp add: recordErrorSent_burst)
  have "\<forall>c \<in> set cs. clk_now (fst c) < resetTime (burst (q_state (recordErrorSent clk payloadSize s)))"
    using "2.prems" by (simp add: b)
  then show ?case
    using "2.IH" by (simp add: b)
qed

lemma canSendError_order:
  "fst (canSendError clk sz s) =
    (if used (burst (q_state (checkAndResetQuotas clk s))) \<ge> burstLimit (q_config s)
     then \<lparr>allowed = False, reason = Some ''Burst limit exceeded''\<rparr>
     else if used (daily (q_state (checkAndResetQuotas clk s))) \<ge> dailyLimit (q_config s)
     then \<lparr>allowed = False, reason = Some ''Daily limit exceeded''\<rparr>
     else if used (monthly (q_state (checkAndResetQuotas clk s))) \<ge> monthlyLimit (q_config s)
     then \<lparr>allowed = False, reason = Some ''Monthly limit exceeded''\<rparr>
     else if sz > payloadSizeLimit (q_config s)
     then \<lparr>allowed = False, reason = Some ''Payload size limit exceeded''\<rparr>
     else \<lparr>allowed = True, reason = None\<rparr>)"
  by (simp add: canSendError_def Let_def checkAndResetQuotas_config)

lemma burst_trips:
  assumes "0 \<le> used (burst (q_state s))"
    and "int (length cs) = burstLimit (q_config s)"
    and "\<forall>c \<in> set cs. clk_now (fst c) < resetTime (burst (q_state s))"
    and "clk_now clk < resetTime (burst (q_state s))"
  shows "fst (canSendError clk sz (recordErrorsSent cs s))
           = \<lparr>allowed = False, reason = Some ''Burst limit exceeded''\<rparr>"
proof -
  let ?s1 = "recordErrorsSent cs s"
  have b: "burst (q_state ?s1) = (burst (q_state s))\<lparr>used := used (burst (q_state s)) + int (length cs)\<rparr>"
    using assms(3) by (rule recordErrorsSent_burst)
  have "clk_now clk < resetTime (burst (q_state ?s1))"
    using assms(4) by (simp add: b)
  then have "burst (q_state (checkAndResetQuotas clk ?s1)) = burst (q_state ?s1)"
    by (rule checkAndResetQuotas_burst_kept)
  then show ?thesis
    using assms(1,2) by (simp add: canSendError_order recordErrorsSent_config b)
qed

text \<open>
  Claim C4. \<open>canSendError\<close> first brings the counters up to date and then tests the burst
  limit, the daily limit, the monthly limit and the payload size, in this order; the first
  test that fails gives the reason. After \<open>burstLimit\<close> calls of \<open>recordErrorSent\<close> in
  one burst window (all calls and the check happen before the burst counter's reset time,
  and the counter did not start below zero) \<open>canSendError\<close> answers
  \<open>{allowed: false, reason: "Burst limit exceeded"}\<close>, whatever the daily and monthly
  counters, their limits and the payload size are. One call of \<open>recordErrorSent\<close> adds one
  to each of the three counters of the up-to-date state and leaves their reset times alone.
\<close>

theorem quota_priority_and_burst:
  "fst (canSendError clk sz s) =
    (if used (burst (q_state (checkAndResetQuotas clk s))) \<ge> burstLimit (q_config s)
     then \<lparr>allowed = False, reason = Some ''Burst limit exceeded''\<rparr>
     else if used (daily (q_state (checkAndResetQuotas clk s))) \<ge> dailyLimit (q_config s)
     then \<lparr>allowed = False, reason = Some ''Daily limit exceeded''\<rparr>
     else if used (monthly (q_state (checkAndResetQuotas clk s))) \<ge> monthlyLimit (q_config s)
     then \<lparr>allowed = False, reason = Some ''Monthly limit exceeded''\<rparr>
     else if sz > payloadSizeLimit (q_config s)
     then \<lparr>allowed = False, reason = Some ''Payload size limit exceeded''\<rparr>
     else \<lparr>allowed = True, reason = None\<rparr>)
   \<and> (0 \<le> used (burst (q_state s)) \<and> int (length cs) = burstLimit (q_config s)
        \<and> (\<forall>c \<in> set cs. clk_now (fst c) < resetTime (burst (q_state s)))
        \<and> clk_now clk < resetTime (burst (q_state s))
       \<longrightarrow> fst (canSendError clk sz (recordErrorsSent cs s))
             = \<lparr>allowed = False, reason = Some ''Burst limit exceeded''\<rparr>)
   \<and> used (daily (q_state (recordErrorSent clk sz s)))
        = used (daily (q_state (checkAndResetQuotas clk s))) + 1
   \<and> used (monthly (q_state (recordErrorSent clk sz s)))
        = used (monthly (q_state (checkAndResetQuotas clk s))) + 1
   \<and> used (burst (q_state (recordErrorSent clk sz s)))
        = used (burst (q_state (checkAndResetQuotas clk s))) + 1
   \<and> resetTime (daily (q_state (recordErrorSent clk sz s)))
        = resetTime (daily (q_state (checkAndResetQuotas clk s)))
   \<and> resetTime (monthly (q_state (recordErrorSent clk sz s)))
        = resetTime (monthly (q_state (checkAndResetQuotas clk s)))
   \<and> resetTime (burst (q_state (recordErrorSent clk sz s)))
        = resetTime (burst (q_state (checkAndResetQuotas clk s)))"
  using canSendError_order [of clk sz s] burst_trips [of s cs clk sz]
    recordErrorSent_counters [of clk sz s]
  by blast

theorem quota_priority_and_burst_witness:
  "fst (canSendError \<lparr>clk_now = 2000, nextDayReset = 86400000, nextMonthReset = 2592000000\<rparr> 10
     (recordErrorsSent
        (replicate 50 (\<lparr>clk_now = 1500, nextDayReset = 86400000, nextMonthReset = 2592000000\<rparr>, 10))
        \<lparr>q_config = quotaDefaultConfig,
         q_state = createInitialState
           \<lparr>clk_now = 1000, nextDayReset = 86400000, nextMonthReset = 2592000000\<rparr>
           quotaDefaultConfig\<rparr>))
   = \<lparr>allowed = False, reason = Some ''Burst limit exceeded''\<rparr>"
proof -
  let ?clk = "\<lparr>clk_now = 2000, nextDayReset = 86400000, nextMonthReset = 2592000000\<rparr>"
  let ?clk1 = "\<lparr>clk_now = 1500, nextDayReset = 86400000, nextMonthReset = 2592000000\<rparr>"
  let ?s = "\<lparr>q_config = quotaDefaultConfig,
         q_state = createInitialState
           \<lparr>clk_now = 1000, nextDayReset = 86400000, nextMonthReset = 2592000000\<rparr>
           quotaDefaultConfig\<rparr>"
  have h: "0 \<le> used (burst (q_state ?s))"
    "int (length (replicate 50 (?clk1, 10::int))) = burstLimit (q_config ?s)"
    "\<forall>c \<in> set (replicate 50 (?clk1, 10::int)). clk_now (fst c) < resetTime (burst (q_state ?s))"
    "clk_now ?clk < resetTime (burst (q_state ?s))"
    by (simp_all add: createInitialState_def quotaDefaultConfig_def)
  show ?thesis
    using h quota_priority_and_burst [of ?clk 10 ?s "replicate 50 (?clk1, 10)"]
    by blast
qed

subsection \<open>SecurityValidatorService: sensitive keys and idempotence\<close>

lemma replaceFrom_noMatch: "noMatch m s \<Longrightarrow> replaceFrom m rep 0 s = s"
  by (induction s) simp_all

lemma replaceAll_noMatch: "noMatch m s \<Longrightarrow> replaceAll m rep s = s"
  by (simp add: replaceAll_def replaceFrom_noMatch)

lemma sanitizeString_patternFree: "patternFree s \<Longrightarrow> sanitizeString s = take 10000 s"
  by (simp add: sanitizeString_def patternFree_def replaceAll_noMatch)

lemma noMatch_take:
  "\<forall>ps rest. m (ps @ rest) = None \<longrightarrow> m ps = None \<Longrightarrow> noMatch m s \<Longrightarrow>
   noMatch m (take n s)"
proof (induction s arbitrary: n)
  case Nil
  then show ?case by simp
next
  case (Cons c cs)
  show ?case
  proof (cases n)
    case 0
    then show ?thesis by simp
  next
    case (Suc k)
    have "m ((c # take k cs) @ drop k cs) = None" using Cons.prems by simp
    then have "m (c # take k cs) = None" using Cons.prems(1) by blast
    then show ?thesis using Cons Suc by simp
  qed
qed

lemma ciPrefix_append: "ciPrefix p ps \<Longrightarrow> ciPrefix p (ps @ rest)"
  by (induction p ps rule: ciPrefix.induct) simp_all

lemma ciPrefix_length: "ciPrefix p s \<Longrightarrow> length p \<le> length s"
  by (induction p s rule: ciPrefix.induct) simp_all

lemma matchLiteral_mono: "matchLiteral lit (ps @ rest) = None \<Longrightarrow> matchLiteral lit ps = None"
  by (auto simp add: matchLiteral_def ciPrefix_append split: if_splits)

lemma lazyUntilClose_append:
  "lazyUntilClose ps \<noteq> None \<Longrightarrow> lazyUntilClose (ps @ rest) \<noteq> None"
proof (induction ps)
  case Nil
  then show ?case by simp
next
  case (Cons c cs)
  show ?case
  proof (cases "ciPrefix ''</script>'' ((c # cs) @ rest)")
    case True
    then show ?thesis by simp
  next
    case False
    then have nf: "\<not> ciPrefix ''</script>'' (c # cs)"
      using ciPrefix_append by blast
    with Cons.prems have "\<not> isLineTerminator c" "lazyUntilClose cs \<noteq> None"
      by (auto split: if_splits)
    then show ?thesis
      using False Cons.IH by auto
  qed
qed

lemma dropWhile_nonempty_append:
  "dropWhile P xs \<noteq> [] \<Longrightarrow>
   dropWhile P (xs @ ys) = dropWhile P xs @ ys \<and> takeWhile P (xs @ ys) = takeWhile P xs"
  by (induction xs) auto

lemma matchScript_mono: "matchScript (ps @ rest) = None \<Longrightarrow> matchScript ps = None"
proof (rule ccontr)
  assume none: "matchScript (ps @ rest) = None" and some: "matchScript ps \<noteq> None"
  from some have pre: "ciPrefix ''<script'' ps"
    by (auto simp add: matchScript_def split: if_splits)
  then have len: "7 \<le> length ps" using ciPrefix_length by fastforce
  from some pre obtain gt body where
    dw: "dropWhile (\<lambda>c. c \<noteq> CHR ''>'') (drop 7 ps) = gt # body"
    and lz: "lazyUntilClose body \<noteq> None"
    by (auto simp add: matchScript_def Let_def split: list.splits option.splits)
  have d7: "drop 7 (ps @ rest) = drop 7 ps @ rest" using len by simp
  have dw': "dropWhile (\<lambda>c. c \<noteq> CHR ''>'') (drop 7 (ps @ rest)) = gt # (body @ rest)"
    unfolding d7
    using dropWhile_nonempty_append [of "\<lambda>c. c \<noteq> CHR ''>''" "drop 7 ps" rest] dw
    by simp
  have "lazyUntilClose (body @ rest) \<noteq> None"
    using lz by (rule lazyUntilClose_append)
  then have "matchScript (ps @ rest) \<noteq> None"
    using pre ciPrefix_append [OF pre, of rest] dw'
    by (auto simp add: matchScript_def Let_def split: option.splits)
  with none show False by simp
qed

lemma matchEventHandler_mono:
  "matchEventHandler (ps @ rest) = None \<Longrightarrow> matchEventHandler ps = None"
proof (rule ccontr)
  assume none: "matchEventHandler (ps @ rest) = None" and some: "matchEventHandler ps \<noteq> None"
  from some have pre: "ciPrefix ''on'' ps"
    by (auto simp add: matchEventHandler_def split: if_splits)
  then have len: "2 \<le> length ps" using ciPrefix_length by fastforce
  from some pre have w: "takeWhile isWordChar (drop 2 ps) \<noteq> []"
    and eq: "prefix ''='' (dropWhile isSpace (dropWhile isWordChar (drop 2 ps)))"
    by (auto simp add: matchEventHandler_def Let_def split: if_splits)
  have ne2: "dropWhile isSpace (dropWhile isWordChar (drop 2 ps)) \<noteq> []"
  proof
    assume "dropWhile isSpace (dropWhile isWordChar (drop 2 ps)) = []"
    with eq show False by simp
  qed
  have ne1: "dropWhile isWordChar (drop 2 ps) \<noteq> []"
  proof
    assume "dropWhile isWordChar (drop 2 ps) = []"
    with ne2 show False by simp
  qed
  have d2: "drop 2 (ps @ rest) = drop 2 ps @ rest" using len by simp
  have a1: "dropWhile isWordChar (drop 2 (ps @ rest)) = dropWhile isWordChar (drop 2 ps) @ rest"
    and a2: "takeWhile isWordChar (drop 2 (ps @ rest)) = takeWhile isWordChar (drop 2 ps)"
    unfolding d2 using dropWhile_nonempty_append [OF ne1, of rest] by simp_all
  have a3: "dropWhile isSpace (dropWhile isWordChar (drop 2 (ps @ rest)))
             = dropWhile isSpace (dropWhile isWordChar (drop 2 ps)) @ rest"
    unfolding a1 using dropWhile_nonempty_append [OF ne2, of rest] by simp
  have "prefix ''='' (dropWhile isSpace (dropWhile isWordChar (drop 2 (ps @ rest))))"
    unfolding a3 using eq by simp
  then have "matchEventHandler (ps @ rest) \<noteq> None"
    using ciPrefix_append [OF pre, of rest] w
    by (simp add: matchEventHandler_def Let_def a2 del: drop_append)
  with none show False by simp
qed

lemma patternFree_take: "patternFree s \<Longrightarrow> patternFree (take n s)"
  unfolding patternFree_def
  using noMatch_take [of matchScript s n] noMatch_take [of "matchLiteral ''javascript:''" s n]
    noMatch_take [of "matchLiteral ''vbscript:''" s n] noMatch_take [of matchEventHandler s n]
    matchScript_mono matchLiteral_mono matchEventHandler_mono
  by blast

lemma js_includes_take: "js_includes (take n s) pat \<Longrightarrow> js_includes s pat"
proof (induction s arbitrary: n)
  case Nil
  then show ?case by simp
next
  case (Cons c cs)
  show ?case
  proof (cases n)
    case 0
    with Cons.prems show ?thesis by simp
  next
    case (Suc k)
    with Cons.prems have "prefix pat (c # take k cs) \<or> js_includes (take k cs) pat" by simp
    then show ?thesis
    proof
      assume "prefix pat (c # take k cs)"
      moreover have "prefix (c # take k cs) (c # cs)" by (simp add: take_is_prefix)
      ultimately have "prefix pat (c # cs)" by (rule prefix_order.trans)
      then show ?thesis by simp
    next
      assume "js_includes (take k cs) pat"
      then show ?thesis using Cons.IH by simp
    qed
  qed
qed

lemma isSensitiveKey_take: "isSensitiveKey (take n k) \<Longrightarrow> isSensitiveKey k"
  by (auto simp add: isSensitiveKey_def toLowerCase_def Let_def list_ex_iff take_map [symmetric]
        dest: js_includes_take)

lemma patternFreeItems_iff: "patternFreeItems xs \<longleftrightarrow> (\<forall>x \<in> set xs. patternFreeValue x)"
  by (induction xs) simp_all

lemma noSensitiveKeysItems_iff:
  "noSensitiveKeysItems xs \<longleftrightarrow> (\<forall>x \<in> set xs. noSensitiveKeys x)"
  by (induction xs) simp_all

lemma wellShapedItems_iff: "wellShapedItems xs \<longleftrightarrow> (\<forall>x \<in> set xs. wellShaped x)"
  by (induction xs) simp_all

lemma setProperty_fresh:
  "k \<notin> fst ` set es \<Longrightarrow> k \<noteq> ''__proto__'' \<Longrightarrow> setProperty k v es = es @ [(k, v)]"
  by (induction es) auto

lemma setProperty_keys: "fst ` set (setProperty k v es) \<subseteq> insert k (fst ` set es)"
proof (induction es)
  case Nil
  then show ?case by simp
next
  case (Cons e es)
  obtain k' v' where e: "e = (k', v')" by (cases e)
  show ?case
    using Cons.IH by (cases "k' = k") (auto simp add: e)
qed

lemma setProperty_distinct:
  "distinct (map fst es) \<Longrightarrow> distinct (map fst (setProperty k v es))"
proof (induction es)
  case Nil
  then show ?case by simp
next
  case (Cons e es)
  obtain k' v' where e: "e = (k', v')" by (cases e)
  show ?case
  proof (cases "k' = k")
    case True
    with Cons.prems show ?thesis by (simp add: e)
  next
    case False
    have "k' \<notin> fst ` set (setProperty k v es)"
      using setProperty_keys [of k v es] Cons.prems False by (auto simp add: e)
    then show ?thesis
      using Cons False by (simp add: e)
  qed
qed

lemma setProperty_wellShaped:
  "wellShapedEntries es \<Longrightarrow> length k \<le> 10000 \<Longrightarrow> wellShaped v \<Longrightarrow>
   wellShapedEntries (setProperty k v es)"
  by (induction es) auto

lemma setProperty_patternFree:
  "patternFreeEntries es \<Longrightarrow> patternFree k \<Longrightarrow> patternFreeValue v \<Longrightarrow>
   patternFreeEntries (setProperty k v es)"
  by (induction es) auto

lemma setProperty_noSensitiveKeys:
  "noSensitiveKeysEntries es \<Longrightarrow> \<not> isSensitiveKey k \<Longrightarrow> noSensitiveKeys v \<Longrightarrow>
   noSensitiveKeysEntries (setProperty k v es)"
  by (induction es) auto

lemma sanitizeString_length: "length (sanitizeString s) \<le> 10000"
  by (simp add: sanitizeString_def)

lemma sanitize_wellShaped:
  "wellShaped (sanitizeData (x :: 'n jsvalue))"
  "wellShapedEntries acc \<Longrightarrow> distinct (map fst acc) \<Longrightarrow>
   wellShapedEntries (sanitizeEntries (es :: (string \<times> 'n jsvalue) list) acc)
   \<and> distinct (map fst (sanitizeEntries es acc))"
proof (induction x and es acc rule: sanitizeData_sanitizeEntries.induct)
  case (3 s)
  show ?case by (simp add: sanitizeString_length)
next
  case (6 items)
  then show ?case by (simp add: wellShapedItems_iff)
next
  case (7 entries)
  then show ?case by simp
next
  case (9 key v entries sanitized)
  show ?case
  proof (cases "isSensitiveKey key")
    case True
    then show ?thesis using 9 by simp
  next
    case False
    have sv: "wellShaped (sanitizeData v)" using "9.IH"(2) False by simp
    have st: "wellShapedEntries (setProperty (sanitizeString key) (sanitizeData v) sanitized)"
      using "9.prems"(1) sanitizeString_length sv by (rule setProperty_wellShaped)
    have di: "distinct (map fst (setProperty (sanitizeString key) (sanitizeData v) sanitized))"
      using "9.prems"(2) by (rule setProperty_distinct)
    show ?thesis
      using "9.IH"(3) [OF False st di] False by simp
  qed
qed simp_all

lemma sanitize_fixed:
  "wellShaped (x :: 'n jsvalue) \<Longrightarrow> patternFreeValue x \<Longrightarrow> noSensitiveKeys x \<Longrightarrow>
   sanitizeData x = x"
  "wellShapedEntries (es :: (string \<times> 'n jsvalue) list) \<Longrightarrow> patternFreeEntries es \<Longrightarrow>
   noSensitiveKeysEntries es \<Longrightarrow> distinct (map fst es) \<Longrightarrow>
   fst ` set acc \<inter> fst ` set es = {} \<Longrightarrow> sanitizeEntries es acc = acc @ es"
proof (induction x and es acc rule: sanitizeData_sanitizeEntries.induct)
  case (3 s)
  then show ?case by (simp add: sanitizeString_patternFree)
next
  case (6 items)
  then have "\<forall>x \<in> set items. sanitizeData x = x"
    by (simp add: wellShapedItems_iff patternFreeItems_iff noSensitiveKeysItems_iff)
  then show ?case by (simp add: map_idI)
next
  case (7 entries)
  then show ?case by simp
next
  case (9 key v entries sanitized)
  from "9.prems" have ns: "\<not> isSensitiveKey key" and pf: "patternFree key"
    and len: "length key \<le> 10000" and np: "key \<noteq> ''__proto__''"
    and wv: "wellShaped v" and pv: "patternFreeValue v" and nv: "noSensitiveKeys v"
    and we: "wellShapedEntries entries" and pe: "patternFreeEntries entries"
    and ne: "noSensitiveKeysEntries entries" and de: "distinct (map fst entries)"
    by simp_all
  have k: "sanitizeString key = key" using pf len by (simp add: sanitizeString_patternFree)
  have v: "sanitizeData v = v" using "9.IH"(2) ns wv pv nv by simp
  have fresh: "key \<notin> fst ` set sanitized" using "9.prems"(5) by auto
  have sp: "setProperty key v sanitized = sanitized @ [(key, v)]"
    using fresh np by (rule setProperty_fresh)
  have disj: "fst ` set (sanitized @ [(key, v)]) \<inter> fst ` set entries = {}"
    using "9.prems"(4,5) by auto
  have "sanitizeEntries entries (sanitized @ [(key, v)]) = (sanitized @ [(key, v)]) @ entries"
    using "9.IH"(3) [OF ns] we pe ne de disj by (simp add: k v sp)
  then show ?case using ns by (simp add: k v sp)
qed simp_all

lemma sanitize_clean:
  "patternFreeValue (x :: 'n jsvalue) \<Longrightarrow>
   patternFreeValue (sanitizeData x) \<and> noSensitiveKeys (sanitizeData x)"
  "patternFreeEntries (es :: (string \<times> 'n jsvalue) list) \<Longrightarrow> patternFreeEntries acc \<Longrightarrow>
   noSensitiveKeysEntries acc \<Longrightarrow>
   patternFreeEntries (sanitizeEntries es acc) \<and> noSensitiveKeysEntries (sanitizeEntries es acc)"
proof (induction x and es acc rule: sanitizeData_sanitizeEntries.induct)
  case (3 s)
  then show ?case by (simp add: sanitizeString_patternFree patternFree_take)
next
  case (6 items)
  then show ?case by (simp add: patternFreeItems_iff noSensitiveKeysItems_iff)
next
  case (7 entries)
  then show ?case by simp
next
  case (9 key v entries sanitized)
  show ?case
  proof (cases "isSensitiveKey key")
    case True
    then show ?thesis using 9 by simp
  next
    case False
    with "9.prems" have pf: "patternFree key" and pv: "patternFreeValue v"
      and pe: "patternFreeEntries entries" by simp_all
    have k: "sanitizeString key = take 10000 key" using pf by (rule sanitizeString_patternFree)
    have sv: "patternFreeValue (sanitizeData v)" "noSensitiveKeys (sanitizeData v)"
      using "9.IH"(2) False pv by simp_all
    have ns: "\<not> isSensitiveKey (take 10000 key)" using False isSensitiveKey_take by blast
    have p1: "patternFreeEntries (setProperty (take 10000 key) (sanitizeData v) sanitized)"
      using "9.prems"(2) patternFree_take [OF pf] sv(1) by (rule setProperty_patternFree)
    have p2: "noSensitiveKeysEntries (setProperty (take 10000 key) (sanitizeData v) sanitized)"
      using "9.prems"(3) ns sv(2) by (rule setProperty_noSensitiveKeys)
    show ?thesis
      using "9.IH"(3) [OF False] pe p1 p2 False by (simp add: k)
  qed
qed simp_all

lemma subset_via_insert:
  "A \<subseteq> B \<union> S \<Longrightarrow> B \<subseteq> insert x C \<Longrightarrow> x \<in> S' \<Longrightarrow> S \<subseteq> S' \<Longrightarrow> A \<subseteq> C \<union> S'"
  by blast

lemma sanitizeEntries_keys:
  "fst ` set (sanitizeEntries es acc)
     \<subseteq> fst ` set acc \<union> sanitizeString ` {k \<in> fst ` set es. \<not> isSensitiveKey k}"
proof (induction es arbitrary: acc)
  case Nil
  then show ?case by simp
next
  case (Cons e es)
  obtain k v where e: "e = (k, v)" by (cases e)
  define S where "S = sanitizeString ` {k \<in> fst ` set es. \<not> isSensitiveKey k}"
  define S' where "S' = sanitizeString ` {k \<in> fst ` set (e # es). \<not> isSensitiveKey k}"
  have d: "S \<subseteq> S'"
    unfolding S_def S'_def by (rule image_mono) auto
  show ?case
  proof (cases "isSensitiveKey k")
    case True
    have "sanitizeEntries (e # es) acc = sanitizeEntries es acc"
      using True by (simp add: e)
    moreover have "fst ` set (sanitizeEntries es acc) \<subseteq> fst ` set acc \<union> S"
      unfolding S_def by (rule Cons.IH)
    ultimately have "fst ` set (sanitizeEntries (e # es) acc) \<subseteq> fst ` set acc \<union> S'"
      using d by (simp add: le_supI2 subset_trans [OF _ sup_mono [OF subset_refl d]])
    then show ?thesis unfolding S'_def .
  next
    case False
    define acc' where "acc' = setProperty (sanitizeString k) (sanitizeData v) acc"
    have step: "sanitizeEntries (e # es) acc = sanitizeEntries es acc'"
      using False by (simp add: e acc'_def)
    have a: "fst ` set (sanitizeEntries es acc') \<subseteq> fst ` set acc' \<union> S"
      unfolding S_def by (rule Cons.IH)
    have b: "fst ` set acc' \<subseteq> insert (sanitizeString k) (fst ` set acc)"
      unfolding acc'_def by (rule setProperty_keys)
    have "k \<in> {k \<in> fst ` set (e # es). \<not> isSensitiveKey k}"
      using False by (simp add: e)
    then have c: "sanitizeString k \<in> S'"
      unfolding S'_def by (rule imageI)
    have "fst ` set (sanitizeEntries (e # es) acc) \<subseteq> fst ` set acc \<union> S'"
      unfolding step using a b c d by (rule subset_via_insert)
    then show ?thesis unfolding S'_def .
  qed
qed

text \<open>
  Claim C5. \<open>sanitizeData\<close> tests the key as it is in the input and then stores the value
  under the sanitized key, which is not tested. The key \<open>cookionx=\<close> is not sensitive; the
  event-handler replacement turns it into \<open>cookievent_removed=\<close>, which contains
  \<open>cookie\<close>. So the output of \<open>sanitizeData\<close> on \<open>{"cookionx=": 1}\<close> has a key that
  matches the denylist. (By \<open>sanitizeEntries_keys\<close> every key of the output is the
  sanitized form of an input key that is not sensitive: sensitive input keys are dropped.)
\<close>

theorem sanitized_key_can_be_sensitive:
  "sanitizeData (JObject [(''cookionx='', JNumber (1::int))])
     = JObject [(''cookievent_removed='', JNumber 1)]
   \<and> \<not> isSensitiveKey ''cookionx=''
   \<and> \<not> noSensitiveKeys (sanitizeData (JObject [(''cookionx='', JNumber (1::int))]))"
proof -
  have r: "replaceAll matchEventHandler ''event_removed=''
            (replaceAll (matchLiteral ''vbscript:'') ''vbscript_removed:''
              (replaceAll (matchLiteral ''javascript:'') ''javascript_removed:''
                (replaceAll matchScript ''[script removed]'' ''cookionx='')))
           = ''cookievent_removed=''"
    by code_simp
  have k: "sanitizeString ''cookionx='' = ''cookievent_removed=''"
    by (simp add: sanitizeString_def r)
  have s1: "\<not> isSensitiveKey ''cookionx=''" by code_simp
  have s2: "isSensitiveKey ''cookievent_removed=''" by code_simp
  show ?thesis using s1 s2 by (simp add: k)
qed


text \<open>
  Claim C6, as amended. \<open>sanitizeData\<close> is idempotent at every value \<open>x\<close> (nested
  strings, numbers, booleans, \<open>null\<close>, \<open>undefined\<close>, arrays and objects) whose sanitized
  form \<open>sanitizeData x\<close> contains no match of the four injection patterns in a string or a
  key and no sensitive key, that is, whenever the replacements have not created new
  material. This is so in particular when \<open>x\<close> itself contains no match in a string or in
  the key of a property that is not sensitive: then \<open>sanitizeData\<close> only truncates
  strings and keys to 10,000 characters and drops the sensitive properties, and truncation
  creates neither a match nor a sensitive key.
\<close>

theorem sanitize_idempotent_when_clean:
  "(patternFreeValue x \<longrightarrow> sanitizeData (sanitizeData x) = sanitizeData x)
   \<and> (patternFreeValue (sanitizeData x) \<and> noSensitiveKeys (sanitizeData x)
        \<longrightarrow> sanitizeData (sanitizeData x) = sanitizeData x)"
  using sanitize_clean(1) [of x] sanitize_wellShaped(1) [of x]
    sanitize_fixed(1) [of "sanitizeData x"]
  by blast

theorem sanitize_idempotent_when_clean_witness:
  "patternFreeValue
     (JObject [(''name'', JString ''hello world''),
               (''Password'', JString ''javascript:alert(1)''),
               (''tags'', JArray [JString ''a < b'', JNumber (1::int), JNull, JBoolean True])])
   \<and> sanitizeData (sanitizeData
     (JObject [(''name'', JString ''hello world''),
               (''Password'', JString ''javascript:alert(1)''),
               (''tags'', JArray [JString ''a < b'', JNumber (1::int), JNull, JBoolean True])]))
     = sanitizeData
     (JObject [(''name'', JString ''hello world''),
               (''Password'', JString ''javascript:alert(1)''),
               (''tags'', JArray [JString ''a < b'', JNumber (1::int), JNull, JBoolean True])])
   \<and> sanitizeData (JObject [(''note'', JString ''see JavaScript:alert(1) <SCRIPT>x</script>'')]
        :: int jsvalue)
     = JObject [(''note'', JString ''see javascript_removed:alert(1) [script removed]'')]
   \<and> sanitizeData (sanitizeData
        (JObject [(''note'', JString ''see JavaScript:alert(1) <SCRIPT>x</script>'')]
          :: int jsvalue))
     = sanitizeData
        (JObject [(''note'', JString ''see JavaScript:alert(1) <SCRIPT>x</script>'')])"
proof -
  let ?x1 = "JObject [(''name'', JString ''hello world''),
               (''Password'', JString ''javascript:alert(1)''),
               (''tags'', JArray [JString ''a < b'', JNumber (1::int), JNull, JBoolean True])]"
  let ?x2 = "JObject [(''note'', JString ''see JavaScript:alert(1) <SCRIPT>x</script>'')]
               :: int jsvalue"
  let ?y2 = "JObject [(''note'', JString ''see javascript_removed:alert(1) [script removed]'')]
               :: int jsvalue"
  have h1: "patternFreeValue ?x1" by code_simp
  have rk: "replaceAll matchEventHandler ''event_removed=''
            (replaceAll (matchLiteral ''vbscript:'') ''vbscript_removed:''
              (replaceAll (matchLiteral ''javascript:'') ''javascript_removed:''
                (replaceAll matchScript ''[script removed]'' ''note'')))
           = ''note''"
    by code_simp
  have rv: "replaceAll matchEventHandler ''event_removed=''
            (replaceAll (matchLiteral ''vbscript:'') ''vbscript_removed:''
              (replaceAll (matchLiteral ''javascript:'') ''javascript_removed:''
                (replaceAll matchScript ''[script removed]''
                   ''see JavaScript:alert(1) <SCRIPT>x</script>'')))
           = ''see javascript_removed:alert(1) [script removed]''"
    by code_simp
  have k: "sanitizeString ''note'' = ''note''"
    unfolding sanitizeString_def rk by simp
  have v: "sanitizeString ''see JavaScript:alert(1) <SCRIPT>x</script>''
             = ''see javascript_removed:alert(1) [script removed]''"
    unfolding sanitizeString_def rv by simp
  have ns: "\<not> isSensitiveKey ''note''" by code_simp
  have e2: "sanitizeData ?x2 = ?y2"
    using ns by (simp add: k v)
  have "patternFreeValue ?y2 \<and> noSensitiveKeys ?y2" by code_simp
  then have h2: "patternFreeValue (sanitizeData ?x2) \<and> noSensitiveKeys (sanitizeData ?x2)"
    by (simp only: e2)
  show ?thesis
    using h1 h2 e2 sanitize_idempotent_when_clean [of ?x1]
      sanitize_idempotent_when_clean [of ?x2]
    by blast
qed

theorem sanitize_idempotent_counterexample:
  "sanitizeData (JString (''<script>onx'' @ [CHR 0x0A] @ ''=</script>'') :: unit jsvalue)
     = JString ''<script>event_removed=</script>''
   \<and> sanitizeData (sanitizeData
        (JString (''<script>onx'' @ [CHR 0x0A] @ ''=</script>'') :: unit jsvalue))
     = JString ''[script removed]''
   \<and> sanitizeData (sanitizeData
        (JString (''<script>onx'' @ [CHR 0x0A] @ ''=</script>'') :: unit jsvalue))
     \<noteq> sanitizeData (JString (''<script>onx'' @ [CHR 0x0A] @ ''=</script>''))"
proof -
  have r1: "replaceAll matchEventHandler ''event_removed=''
            (replaceAll (matchLiteral ''vbscript:'') ''vbscript_removed:''
              (replaceAll (matchLiteral ''javascript:'') ''javascript_removed:''
                (replaceAll matchScript ''[script removed]''
                   (''<script>onx'' @ [CHR 0x0A] @ ''=</script>''))))
           = ''<script>event_removed=</script>''"
    by code_simp
  have r2: "replaceAll matchEventHandler ''event_removed=''
            (replaceAll (matchLiteral ''vbscript:'') ''vbscript_removed:''
              (replaceAll (matchLiteral ''javascript:'') ''javascript_removed:''
                (replaceAll matchScript ''[script removed]''
                   ''<script>event_removed=</script>'')))
           = ''[script removed]''"
    by code_simp
  have k1: "sanitizeString (''<script>onx'' @ [CHR 0x0A] @ ''=</script>'')
              = ''<script>event_removed=</script>''"
    unfolding sanitizeString_def r1 by simp
  have k2: "sanitizeString ''<script>event_removed=</script>'' = ''[script removed]''"
    unfolding sanitizeString_def r2 by simp
  show ?thesis unfolding sanitizeData.simps k1 k2 by simp
qed

subsection \<open>OfflineManagerService: one pass over the queue\<close>

lemma sendEach_closed_form:
  "sendEach send k batch q =
     rev (map (\<lambda>(i, qr). qr\<lparr>attempts := attempts qr + 1\<rparr>)
            (filter (\<lambda>(i, qr). \<not> send i (report qr) \<and> attempts qr + 1 < 3)
               (enumerate k batch))) @ q"
  by (induction batch arbitrary: k q) (simp_all add: Let_def)

text \<open>
  Claim C8. A pass of \<open>processQueue\<close> that runs (a send function is set, no pass is in
  progress, the browser is online) takes the first five records off the queue and sends
  them in order. Afterwards the queue holds, in front of the records that were not taken,
  exactly the records whose send failed and whose incremented \<open>attempts\<close> counter is
  below 3, each with the counter incremented (the record that failed last is first).
  Records that were sent, and records whose incremented counter is 3 or more (so a record
  that already had \<open>attempts = 3\<close>), are not in the queue any more.
\<close>

theorem processQueue_requeue:
  assumes "hasSendReportFunction s" and "\<not> isProcessing s"
  shows "queue (fst (processQueue send True onlineAtEnd s)) =
           rev (map (\<lambda>(i, qr). qr\<lparr>attempts := attempts qr + 1\<rparr>)
                  (filter (\<lambda>(i, qr). \<not> send i (report qr) \<and> attempts qr + 1 < 3)
                     (enumerate 0 (take 5 (queue s))))) @ drop 5 (queue s)
    \<and> (queue s = [qr] \<and> \<not> send 0 (report qr) \<and> attempts qr + 1 < 3 \<longrightarrow>
         queue (fst (processQueue send True onlineAtEnd s)) = [qr\<lparr>attempts := attempts qr + 1\<rparr>])
    \<and> (queue s = [qr] \<and> \<not> send 0 (report qr) \<and> attempts qr + 1 \<ge> 3 \<longrightarrow>
         queue (fst (processQueue send True onlineAtEnd s)) = [])
    \<and> (queue s = [qr] \<and> send 0 (report qr) \<longrightarrow>
         queue (fst (processQueue send True onlineAtEnd s)) = [])"
  using assms by (auto simp add: processQueue_def Let_def sendEach_closed_form)

theorem processQueue_requeue_witness:
  "queue (fst (processQueue (\<lambda>k r. r = ''c'') True True
      \<lparr>queue = [\<lparr>report = ''a'', qr_timestamp = 10, attempts = 0\<rparr>,
                \<lparr>report = ''b'', qr_timestamp = 11, attempts = 3\<rparr>,
                \<lparr>report = ''c'', qr_timestamp = 12, attempts = 0\<rparr>,
                \<lparr>report = ''d'', qr_timestamp = 13, attempts = 1\<rparr>,
                \<lparr>report = ''e'', qr_timestamp = 14, attempts = 2\<rparr>,
                \<lparr>report = ''f'', qr_timestamp = 15, attempts = 0\<rparr>],
       maxQueueSize = 50, maxAge = 86400000, hasSendReportFunction = True,
       isProcessing = False\<rparr>))
   = [\<lparr>report = ''d'', qr_timestamp = 13, attempts = 2\<rparr>,
      \<lparr>report = ''a'', qr_timestamp = 10, attempts = 1\<rparr>,
      \<lparr>report = ''f'', qr_timestamp = 15, attempts = 0\<rparr>]
   \<and> queue (fst (processQueue (\<lambda>k r. False) True True
      \<lparr>queue = [\<lparr>report = ''b'', qr_timestamp = 11, attempts = 3\<rparr>],
       maxQueueSize = 50, maxAge = 86400000, hasSendReportFunction = True,
       isProcessing = False\<rparr>)) = []
   \<and> queue (fst (processQueue (\<lambda>k r. False) True True
      \<lparr>queue = [\<lparr>report = ''a'', qr_timestamp = 10, attempts = 0\<rparr>],
       maxQueueSize = 50, maxAge = 86400000, hasSendReportFunction = True,
       isProcessing = False\<rparr>)) = [\<lparr>report = ''a'', qr_timestamp = 10, attempts = 1\<rparr>]
   \<and> queue (fst (processQueue (\<lambda>k r. True) True True
      \<lparr>queue = [\<lparr>report = ''a'', qr_timestamp = 10, attempts = 0\<rparr>],
       maxQueueSize = 50, maxAge = 86400000, hasSendReportFunction = True,
       isProcessing = False\<rparr>)) = []"
proof -
  let ?a = "\<lparr>report = ''a'', qr_timestamp = 10, attempts = 0\<rparr>"
  let ?b = "\<lparr>report = ''b'', qr_timestamp = 11, attempts = 3\<rparr>"
  let ?s6 = "\<lparr>queue = [?a, ?b,
                \<lparr>report = ''c'', qr_timestamp = 12, attempts = 0\<rparr>,
                \<lparr>report = ''d'', qr_timestamp = 13, attempts = 1\<rparr>,
                \<lparr>report = ''e'', qr_timestamp = 14, attempts = 2\<rparr>,
                \<lparr>report = ''f'', qr_timestamp = 15, attempts = 0\<rparr>],
       maxQueueSize = 50, maxAge = 86400000, hasSendReportFunction = True,
       isProcessing = False\<rparr>"
  let ?sa = "\<lparr>queue = [?a], maxQueueSize = 50, maxAge = 86400000,
       hasSendReportFunction = True, isProcessing = False\<rparr>"
  let ?sb = "\<lparr>queue = [?b], maxQueueSize = 50, maxAge = 86400000,
       hasSendReportFunction = True, isProcessing = False\<rparr>"
  have h6: "hasSendReportFunction ?s6" "\<not> isProcessing ?s6" by simp_all
  have ha: "hasSendReportFunction ?sa" "\<not> isProcessing ?sa" by simp_all
  have hb: "hasSendReportFunction ?sb" "\<not> isProcessing ?sb" by simp_all
  have e: "enumerate 0 (take 5 (queue ?s6)) =
      [(0, ?a), (1, ?b), (2, \<lparr>report = ''c'', qr_timestamp = 12, attempts = 0\<rparr>),
       (3, \<lparr>report = ''d'', qr_timestamp = 13, attempts = 1\<rparr>),
       (4, \<lparr>report = ''e'', qr_timestamp = 14, attempts = 2\<rparr>)]"
    by (simp add: enumerate_eq_zip upt_rec)
  show ?thesis
    using processQueue_requeue [OF h6, of "\<lambda>k r. r = ''c''" True ?a]
      processQueue_requeue [OF hb, of "\<lambda>k r. False" True ?b]
      processQueue_requeue [OF ha, of "\<lambda>k r. False" True ?a]
      processQueue_requeue [OF ha, of "\<lambda>k r. True" True ?a]
    by (simp add: e)
qed

subsection \<open>BatchManagerService: the average batch size\<close>

lemma sendBatch_begin_stats:
  "totalBatches (stats (sendBatch_begin s)) = totalBatches (stats s)
   \<and> totalErrors (stats (sendBatch_begin s)) = totalErrors (stats s)
   \<and> averageBatchSize (stats (sendBatch_begin s)) = averageBatchSize (stats s)"
  by (simp add: sendBatch_begin_def Let_def)

lemma addToBatch_stats:
  "totalBatches (stats (addToBatch sizeOf e s)) = totalBatches (stats s)
   \<and> totalErrors (stats (addToBatch sizeOf e s)) = totalErrors (stats s) + 1
   \<and> averageBatchSize (stats (addToBatch sizeOf e s)) = averageBatchSize (stats s)"
  by (simp add: addToBatch_def Let_def sendBatch_begin_stats)

lemma settle_failure_stats:
  "stats (sendBatch_complete k False clock s) = stats s"
  by (simp add: sendBatch_complete_def Let_def)

lemma settle_success_stats:
  "k < length (inFlight s) \<Longrightarrow>
   totalBatches (stats (sendBatch_complete k True clock s)) = totalBatches (stats s) + 1
   \<and> totalErrors (stats (sendBatch_complete k True clock s)) = totalErrors (stats s)
   \<and> (0 \<le> totalBatches (stats s) \<longrightarrow>
       averageBatchSize (stats (sendBatch_complete k True clock s))
        = real_of_int (totalErrors (stats s)) / real_of_int (totalBatches (stats s) + 1))"
  by (simp add: sendBatch_complete_def updateAverageBatchSize_def Let_def)

lemma bm_step_inv: "avg_inv (stats s) \<Longrightarrow> avg_inv (stats (bm_step sizeOf ev s))"
proof (cases ev)
  case (AddToBatch e)
  assume "avg_inv (stats s)"
  then show ?thesis
    using addToBatch_stats [of sizeOf e s]
    by (auto simp add: avg_inv_def AddToBatch split: if_splits)
next
  case Flush
  assume "avg_inv (stats s)"
  then show ?thesis
    using sendBatch_begin_stats [of s] by (simp add: avg_inv_def Flush flush_def)
next
  case TimeoutFires
  assume "avg_inv (stats s)"
  then show ?thesis
    using sendBatch_begin_stats [of s] by (simp add: avg_inv_def TimeoutFires batchTimeoutFires_def)
next
  case (SendSettles k ok clock)
  assume inv: "avg_inv (stats s)"
  show ?thesis
  proof (cases "ok \<and> k < length (inFlight s)")
    case False
    then show ?thesis using inv
      by (auto simp add: SendSettles settle_failure_stats sendBatch_complete_def)
  next
    case True
    then show ?thesis
      using inv settle_success_stats [of k s clock]
      by (auto simp add: avg_inv_def SendSettles)
  qed
qed

lemma bm_run_inv: "avg_inv (stats s) \<Longrightarrow> avg_inv (stats (bm_run sizeOf evs s))"
  by (induction evs arbitrary: s) (simp_all add: bm_step_inv)

text \<open>
  Claim C9, as amended. When a batch send succeeds, \<open>totalBatches\<close> goes up by one and
  \<open>averageBatchSize\<close> is set to \<open>totalErrors / totalBatches\<close>; a send that fails changes
  no statistic, so only batches sent are counted, not batches attempted. \<open>totalErrors\<close>
  counts every item passed to \<open>addToBatch\<close>, which adds one to it and does not touch
  \<open>averageBatchSize\<close>. So between successful sends the statistic is the quotient as of
  the last successful send: in every state reached from one with no batch sent yet,
  \<open>averageBatchSize \<le> totalErrors / totalBatches\<close> whenever \<open>totalBatches > 0\<close>, and
  \<open>averageBatchSize = 0\<close> otherwise.
\<close>

theorem average_batch_size:
  "(k < length (inFlight s) \<and> 0 \<le> totalBatches (stats s) \<longrightarrow>
      totalBatches (stats (sendBatch_complete k True clock s)) = totalBatches (stats s) + 1
      \<and> averageBatchSize (stats (sendBatch_complete k True clock s))
          = real_of_int (totalErrors (stats (sendBatch_complete k True clock s)))
            / real_of_int (totalBatches (stats (sendBatch_complete k True clock s))))
   \<and> stats (sendBatch_complete k False clock s) = stats s
   \<and> totalErrors (stats (addToBatch sizeOf e s)) = totalErrors (stats s) + 1
   \<and> totalBatches (stats (addToBatch sizeOf e s)) = totalBatches (stats s)
   \<and> averageBatchSize (stats (addToBatch sizeOf e s)) = averageBatchSize (stats s)
   \<and> (totalBatches (stats s) = 0 \<and> averageBatchSize (stats s) = 0 \<longrightarrow>
        0 \<le> totalBatches (stats (bm_run sizeOf evs s))
        \<and> (0 < totalBatches (stats (bm_run sizeOf evs s)) \<longrightarrow>
             averageBatchSize (stats (bm_run sizeOf evs s))
               \<le> real_of_int (totalErrors (stats (bm_run sizeOf evs s)))
                 / real_of_int (totalBatches (stats (bm_run sizeOf evs s))))
        \<and> (totalBatches (stats (bm_run sizeOf evs s)) = 0 \<longrightarrow>
             averageBatchSize (stats (bm_run sizeOf evs s)) = 0))"
proof -
  have a: "totalBatches (stats (sendBatch_complete k True clock s)) = totalBatches (stats s) + 1
      \<and> averageBatchSize (stats (sendBatch_complete k True clock s))
          = real_of_int (totalErrors (stats (sendBatch_complete k True clock s)))
            / real_of_int (totalBatches (stats (sendBatch_complete k True clock s)))"
    if "k < length (inFlight s)" "0 \<le> totalBatches (stats s)"
    using settle_success_stats [OF that(1), of clock] that(2) by simp
  have b: "0 \<le> totalBatches (stats (bm_run sizeOf evs s))
        \<and> (0 < totalBatches (stats (bm_run sizeOf evs s)) \<longrightarrow>
             averageBatchSize (stats (bm_run sizeOf evs s))
               \<le> real_of_int (totalErrors (stats (bm_run sizeOf evs s)))
                 / real_of_int (totalBatches (stats (bm_run sizeOf evs s))))
        \<and> (totalBatches (stats (bm_run sizeOf evs s)) = 0 \<longrightarrow>
             averageBatchSize (stats (bm_run sizeOf evs s)) = 0)"
    if "totalBatches (stats s) = 0" "averageBatchSize (stats s) = 0"
  proof -
    have "avg_inv (stats s)" using that by (simp add: avg_inv_def)
    then have "avg_inv (stats (bm_run sizeOf evs s))" by (rule bm_run_inv)
    then show ?thesis
      by (auto simp add: avg_inv_def pos_le_divide_eq split: if_splits)
  qed
  show ?thesis
    using a b settle_failure_stats [of k clock s] addToBatch_stats [of sizeOf e s]
    by blast
qed

theorem average_batch_size_witness:
  "averageBatchSize (stats (sendBatch_complete 0 True 5000
      (bm_run (\<lambda>b. 0) [AddToBatch ''x'', AddToBatch ''y'', Flush]
         (setSendFunction batchManagerInit)))) = 2
   \<and> averageBatchSize (stats (bm_run (\<lambda>b. 0)
         [AddToBatch ''x'', AddToBatch ''y'', Flush, SendSettles 0 True 5000, AddToBatch ''z'']
         (setSendFunction batchManagerInit)))
       \<le> real_of_int (totalErrors (stats (bm_run (\<lambda>b. 0)
         [AddToBatch ''x'', AddToBatch ''y'', Flush, SendSettles 0 True 5000, AddToBatch ''z'']
         (setSendFunction batchManagerInit))))
         / real_of_int (totalBatches (stats (bm_run (\<lambda>b. 0)
         [AddToBatch ''x'', AddToBatch ''y'', Flush, SendSettles 0 True 5000, AddToBatch ''z'']
         (setSendFunction batchManagerInit))))"
proof -
  let ?s0 = "setSendFunction batchManagerInit :: string BatchManager"
  let ?s1 = "bm_run (\<lambda>b. 0) [AddToBatch ''x'', AddToBatch ''y'', Flush] ?s0"
  let ?evs = "[AddToBatch ''x'', AddToBatch ''y'', Flush, SendSettles 0 True 5000,
               AddToBatch ''z'']"
  have s1: "inFlight ?s1 = [[''x'', ''y'']]" "totalBatches (stats ?s1) = 0"
    "totalErrors (stats ?s1) = 2"
    by (simp_all add: batchManagerInit_def setSendFunction_def addToBatch_def flush_def
          shouldSendBatch_def sendBatch_begin_def Let_def)
  have s0: "totalBatches (stats ?s0) = 0" "averageBatchSize (stats ?s0) = 0"
    by (simp_all add: batchManagerInit_def setSendFunction_def)
  have run: "totalBatches (stats (bm_run (\<lambda>b. 0) ?evs ?s0)) = 1"
    by (simp add: batchManagerInit_def setSendFunction_def addToBatch_def flush_def
          shouldSendBatch_def sendBatch_begin_def sendBatch_complete_def
          updateAverageBatchSize_def Let_def)
  have t: "totalErrors (stats (sendBatch_complete 0 True 5000 ?s1)) = 2"
    using s1 by (simp add: sendBatch_complete_def updateAverageBatchSize_def Let_def)
  show ?thesis
    using s1 s0 run t average_batch_size [of 0 ?s1 5000 "\<lambda>b. 0" "''z''" "[]"]
      average_batch_size [of 0 ?s0 5000 "\<lambda>b. 0" "''z''" ?evs]
    by simp
qed

theorem average_batch_size_counterexample:
  "totalBatches (stats (bm_run (\<lambda>b. 0)
      (replicate 10 (AddToBatch ''e'') @ [SendSettles 0 True 5000, AddToBatch ''e''])
      (setSendFunction batchManagerInit))) = 1
   \<and> totalErrors (stats (bm_run (\<lambda>b. 0)
      (replicate 10 (AddToBatch ''e'') @ [SendSettles 0 True 5000, AddToBatch ''e''])
      (setSendFunction batchManagerInit))) = 11
   \<and> averageBatchSize (stats (bm_run (\<lambda>b. 0)
      (replicate 10 (AddToBatch ''e'') @ [SendSettles 0 True 5000, AddToBatch ''e''])
      (setSendFunction batchManagerInit))) = 10
   \<and> averageBatchSize (stats (bm_run (\<lambda>b. 0)
      (replicate 10 (AddToBatch ''e'') @ [SendSettles 0 True 5000, AddToBatch ''e''])
      (setSendFunction batchManagerInit)))
     \<noteq> real_of_int (totalErrors (stats (bm_run (\<lambda>b. 0)
          (replicate 10 (AddToBatch ''e'') @ [SendSettles 0 True 5000, AddToBatch ''e''])
          (setSendFunction batchManagerInit))))
       / real_of_int (totalBatches (stats (bm_run (\<lambda>b. 0)
          (replicate 10 (AddToBatch ''e'') @ [SendSettles 0 True 5000, AddToBatch ''e''])
          (setSendFunction batchManagerInit))))"
  by (simp add: batchManagerInit_def setSendFunction_def addToBatch_def
    shouldSendBatch_def sendBatch_begin_def sendBatch_complete_def updateAverageBatchSize_def
    numeral_eq_Suc Let_def)

subsection \<open>SDKMonitorService: completing unknown requests\<close>

lemma requests_after_success: "requests (recordRequestSuccess now rid sz s) rid = None"
  by (simp add: recordRequestSuccess_def updateAverageResponseTime_def Let_def
           split: option.splits)

lemma requests_after_failure: "requests (recordRequestFailure now rid err s) rid = None"
  by (simp add: recordRequestFailure_def updateAverageResponseTime_def Let_def
           split: option.splits)

lemma mon_step_unissued:
  "requests s rid = None \<Longrightarrow> \<forall>clock. c \<noteq> RequestStart rid clock \<Longrightarrow>
   requests (mon_step c s) rid = None"
  by (cases c)
     (auto simp add: recordRequestStart_def recordRequestSuccess_def recordRequestFailure_def
        recordErrorReported_def recordErrorDropped_def recordQueueSize_def monitorReset_def
        monitorInit_def updateAverageResponseTime_def Let_def split: option.splits)

lemma mon_run_unissued:
  "requests s rid = None \<Longrightarrow> \<forall>clock. RequestStart rid clock \<notin> set cs \<Longrightarrow>
   requests (mon_run cs s) rid = None"
proof (induction cs arbitrary: s)
  case Nil
  then show ?case by simp
next
  case (Cons c cs)
  have "requests (mon_step c s) rid = None"
    using Cons.prems by (intro mon_step_unissued) auto
  then show ?case
    using Cons.IH [of "mon_step c s"] Cons.prems(2) by simp
qed

text \<open>
  Claim C10. A completion call (\<open>recordRequestSuccess\<close> or \<open>recordRequestFailure\<close>) whose
  request id is not among the active requests leaves the whole monitor state unchanged:
  counters, response-time window, average and active requests. An id is not active when
  no \<open>recordRequestStart\<close> has issued it since the monitor was created, whatever other
  calls were made, and also right after either completion call has handled it, so a
  second completion of the same id is a no-op as well.
\<close>

theorem unknown_request_completion_noop:
  "(requests s rid = None \<longrightarrow>
      recordRequestSuccess now rid sz s = s \<and> recordRequestFailure now rid err s = s)
   \<and> ((\<forall>clock. RequestStart rid clock \<notin> set cs) \<longrightarrow>
        recordRequestSuccess now rid sz (mon_run cs (monitorInit t0))
          = mon_run cs (monitorInit t0)
        \<and> recordRequestFailure now rid err (mon_run cs (monitorInit t0))
          = mon_run cs (monitorInit t0))
   \<and> recordRequestSuccess now' rid sz' (recordRequestSuccess now rid sz s)
       = recordRequestSuccess now rid sz s
   \<and> recordRequestFailure now' rid err' (recordRequestSuccess now rid sz s)
       = recordRequestSuccess now rid sz s
   \<and> recordRequestSuccess now' rid sz' (recordRequestFailure now rid err s)
       = recordRequestFailure now rid err s
   \<and> recordRequestFailure now' rid err' (recordRequestFailure now rid err s)
       = recordRequestFailure now rid err s"
proof -
  have noop_s: "recordRequestSuccess t rid z u = u" if "requests u rid = None" for t z u
    using that by (simp add: recordRequestSuccess_def)
  have noop_f: "recordRequestFailure t rid e u = u" if "requests u rid = None" for t e u
    using that by (simp add: recordRequestFailure_def)
  have init: "requests (monitorInit t0) rid = None"
    by (simp add: monitorInit_def)
  have run: "requests (mon_run cs (monitorInit t0)) rid = None"
    if "\<forall>clock. RequestStart rid clock \<notin> set cs"
    using init that by (rule mon_run_unissued)
  show ?thesis
    using noop_s noop_f run requests_after_success requests_after_failure by blast
qed

theorem unknown_request_completion_noop_witness:
  "recordRequestSuccess 9 ''req_b'' 10
      (mon_run [RequestStart ''req_a'' 5, ErrorReported 120, RequestSuccess 8 ''req_a'' 120,
                RequestStart ''req_c'' 8] (monitorInit 0))
     = mon_run [RequestStart ''req_a'' 5, ErrorReported 120, RequestSuccess 8 ''req_a'' 120,
                RequestStart ''req_c'' 8] (monitorInit 0)
   \<and> recordRequestFailure 9 ''req_b'' ''HTTP 500: x''
      (mon_run [RequestStart ''req_a'' 5, ErrorReported 120, RequestSuccess 8 ''req_a'' 120,
                RequestStart ''req_c'' 8] (monitorInit 0))
     = mon_run [RequestStart ''req_a'' 5, ErrorReported 120, RequestSuccess 8 ''req_a'' 120,
                RequestStart ''req_c'' 8] (monitorInit 0)
   \<and> requests (snd (recordRequestStart ''req_a'' 5 (monitorInit 0))) ''req_b'' = None
   \<and> recordRequestSuccess 9 ''req_b'' 10 (snd (recordRequestStart ''req_a'' 5 (monitorInit 0)))
       = snd (recordRequestStart ''req_a'' 5 (monitorInit 0))"
proof -
  let ?cs = "[RequestStart ''req_a'' 5, ErrorReported 120, RequestSuccess 8 ''req_a'' 120,
                RequestStart ''req_c'' 8]"
  have h1: "\<forall>clock. RequestStart ''req_b'' clock \<notin> set ?cs" by simp
  have h2: "requests (snd (recordRequestStart ''req_a'' 5 (monitorInit 0))) ''req_b'' = None"
    by (simp add: recordRequestStart_def monitorInit_def)
  show ?thesis
    using h1 h2
      unknown_request_completion_noop
        [of "snd (recordRequestStart ''req_a'' 5 (monitorInit 0))" "''req_b''" 9 10
            "''HTTP 500: x''" ?cs 0]
    by blast
qed

end
